theory Spec2Isabelle
  imports Complex_Main
begin

section \<open>The Mazda car controller: data model\<close>

text \<open>
  The development embeds \<^verbatim>\<open>CarController.update\<close> of
  \<^verbatim>\<open>selfdrive/car/mazda/carcontroller.py\<close>. Python floats are modelled as
  \<^typ>\<open>real\<close>, Python integers as \<^typ>\<open>int\<close>, decoded bus messages (Python dicts
  from signal name to value) as maps from \<^typ>\<open>string\<close> to \<^typ>\<open>real\<close>. A cycle that
  raises returns \<open>Inl\<close> of the exception.
\<close>

datatype error = KeyError string | ZeroDivisionError

type_synonym msg = "string \<rightharpoonup> real"

definition lookup :: "msg \<Rightarrow> string \<Rightarrow> error + real" where
  \<comment> \<open>\<^verbatim>\<open>d[k]\<close> on a dict: raises \<^verbatim>\<open>KeyError\<close> when the key is missing.\<close>
  "lookup d k = (case d k of None \<Rightarrow> Inl (KeyError k) | Some v \<Rightarrow> Inr v)"

text \<open>
  \<^verbatim>\<open>MazdaFlags\<close> is a bit-flag enumeration and \<^verbatim>\<open>CP.flags\<close> a bit field; the
  field is modelled as the set of flags that are set, so that \<^verbatim>\<open>CP.flags & F\<close> is
  truthy exactly when \<open>F\<close> is a member. The members are those the sources name.
\<close>

datatype MazdaFlags = GEN1 | TORQUE_INTERCEPTOR | RADAR_INTERCEPTOR | NO_MRCC | NO_FSC

datatype Buttons = SET_PLUS | SET_MINUS | RESUME | CANCEL

datatype VisualAlert = none | fcw | steerRequired | brakePressed_alert | wrongGear
  | seatbeltUnbuckled | speedTooHigh | ldw

datatype LongCtrlState = off | starting | active | stopping

record CarParams =
  flags :: "MazdaFlags set"

text \<open>
  Modelled from the spec: \<^verbatim>\<open>CarControllerParams\<close> (module \<^verbatim>\<open>values\<close>) is
  not among the sources. The spec gives each torque path a maximum magnitude, a maximum
  rate of change and driver-override thresholds; \<open>STEER_MAX\<close> and \<open>TI_STEER_MAX\<close>
  are the names the controller reads.
\<close>

record CarControllerParams =
  STEER_MAX :: real
  STEER_DELTA :: real
  STEER_DRIVER_ALLOWANCE :: real
  STEER_DRIVER_FACTOR :: real
  TI_STEER_MAX :: real
  TI_STEER_DELTA :: real
  TI_STEER_DRIVER_ALLOWANCE :: real
  TI_STEER_DRIVER_FACTOR :: real

subsection \<open>Timer\<close>

text \<open>
  Modelled from the spec: the class \<^verbatim>\<open>ControlsTimer\<close> of
  \<^verbatim>\<open>common/realtime.py\<close> is not among the sources. Per the spec, \<open>reset\<close>
  sets the elapsed time to zero, the tick advances it by the fixed control period,
  \<open>active\<close> is \<open>elapsed < duration\<close>, and a timer is constructed reset. The
  control period \<open>DT_CTRL\<close> is 10 ms (the 100 Hz cadence of the spec).
\<close>

definition DT_CTRL :: real where
  \<comment> \<open>Modelled from the spec: the control period, 10 ms at the 100 Hz cadence.\<close>
  "DT_CTRL = 1 / 100"

record Timer =
  duration :: real
  elapsed :: real

definition Timer_new :: "real \<Rightarrow> Timer" where
  \<comment> \<open>Modelled from the spec: a timer is constructed reset, with its duration in seconds.\<close>
  "Timer_new d = \<lparr>duration = d, elapsed = 0\<rparr>"

definition timer_reset :: "Timer \<Rightarrow> Timer" where
  \<comment> \<open>Modelled from the spec: \<open>reset()\<close> sets the elapsed time to zero.\<close>
  "timer_reset t = t\<lparr>elapsed := 0\<rparr>"

definition timer_tick :: "Timer \<Rightarrow> Timer" where
  \<comment> \<open>Modelled from the spec: the tick advances the elapsed time by the control period.\<close>
  "timer_tick t = t\<lparr>elapsed := elapsed t + DT_CTRL\<rparr>"

definition timer_active :: "Timer \<Rightarrow> bool" where
  \<comment> \<open>Modelled from the spec: \<open>active()\<close> is \<open>elapsed < duration\<close>.\<close>
  "timer_active t \<longleftrightarrow> elapsed t < duration t"

definition timer_interval :: "int \<Rightarrow> int \<Rightarrow> bool" where
  \<comment> \<open>Modelled from the spec: \<^verbatim>\<open>Timer.interval(n)\<close> holds on every \<open>n\<close>-th cycle
      of the global tick count.\<close>
  "timer_interval ticks n \<longleftrightarrow> ticks mod n = 0"

subsection \<open>AdaptiveFilter\<close>

text \<open>
  Modelled from the spec: the class \<^verbatim>\<open>FirstOrderFilter\<close> of
  \<^verbatim>\<open>common/filter_simple.py\<close> is not among the sources. Per the spec,
  \<open>update_alpha\<close> sets the coefficient of the next update, clamped into \<open>(0,1]\<close>;
  \<open>update\<close> returns its input and marks the filter initialised when it is not, and
  \<open>alpha * input + (1 - alpha) * lastOutput\<close> otherwise. The spec does not say where a
  value outside \<open>(0,1]\<close> is clamped to, so the clamp is the parameter \<open>clamp\<close> of the
  model.
\<close>

record FirstOrderFilter =
  lastOutput :: real
  alpha :: real
  initialized :: bool

definition FirstOrderFilter_new :: "(real \<Rightarrow> real) \<Rightarrow> real \<Rightarrow> real \<Rightarrow> bool \<Rightarrow> FirstOrderFilter" where
  \<comment> \<open>Modelled from the spec: the constructor takes the initial output, the initial coefficient and the initialised flag.\<close>
  "FirstOrderFilter_new clamp x0 a ini = \<lparr>lastOutput = x0, alpha = clamp a, initialized = ini\<rparr>"

definition update_alpha :: "(real \<Rightarrow> real) \<Rightarrow> real \<Rightarrow> FirstOrderFilter \<Rightarrow> FirstOrderFilter" where
  \<comment> \<open>Modelled from the spec: sets the clamped coefficient of the next update.\<close>
  "update_alpha clamp a f = f\<lparr>alpha := clamp a\<rparr>"

definition filter_update :: "real \<Rightarrow> FirstOrderFilter \<Rightarrow> real \<times> FirstOrderFilter" where
  \<comment> \<open>Modelled from the spec: the output and the filter after \<open>update(input)\<close>.\<close>
  "filter_update v f =
     (if initialized f
      then (let y = alpha f * v + (1 - alpha f) * lastOutput f in (y, f\<lparr>lastOutput := y\<rparr>))
      else (v, f\<lparr>lastOutput := v, initialized := True\<rparr>))"

subsection \<open>SteerLimiter\<close>

definition clip :: "real \<Rightarrow> real \<Rightarrow> real \<Rightarrow> real" where
  "clip v lo hi = max lo (min hi v)"

text \<open>
  Modelled from the spec: \<^verbatim>\<open>apply_driver_steer_torque_limits\<close> and
  \<^verbatim>\<open>apply_ti_steer_torque_limits\<close> (package \<^verbatim>\<open>selfdrive/car\<close>) are not
  among the sources. Per the spec the limiter takes the desired value, the previous
  applied value, the measured driver torque and the limiter parameters; the allowed
  magnitude is the maximum magnitude, reduced in proportion to the excess of an opposing
  driver torque over the override threshold; the desired value is clamped to the allowed
  magnitude and then to within the maximum rate of change of the previous value. The
  auxiliary limiter is the same limiter on its own parameters.
\<close>

definition steer_limiter :: "real \<Rightarrow> real \<Rightarrow> real \<Rightarrow> real \<Rightarrow> real \<Rightarrow> real \<Rightarrow> real \<Rightarrow> real" where
  \<comment> \<open>Modelled from the spec: the limiter on maximum magnitude, maximum rate, override threshold and override factor.\<close>
  "steer_limiter mx rate thr fac new_steer steer_last driver_torque =
     (let opposes = (new_steer > 0 \<and> driver_torque < 0) \<or> (new_steer < 0 \<and> driver_torque > 0);
          allowed = (if opposes \<and> \<bar>driver_torque\<bar> > thr
                     then max 0 (min mx (mx - fac * (\<bar>driver_torque\<bar> - thr)))
                     else mx);
          limited = clip new_steer (- allowed) allowed
      in clip limited (steer_last - rate) (steer_last + rate))"

definition apply_driver_steer_torque_limits ::
  "real \<Rightarrow> real \<Rightarrow> real \<Rightarrow> CarControllerParams \<Rightarrow> real" where
  \<comment> \<open>Modelled from the spec: the limiter of the standard torque path.\<close>
  "apply_driver_steer_torque_limits new_steer steer_last driver_torque LIMITS =
     steer_limiter (STEER_MAX LIMITS) (STEER_DELTA LIMITS) (STEER_DRIVER_ALLOWANCE LIMITS)
       (STEER_DRIVER_FACTOR LIMITS) new_steer steer_last driver_torque"

definition apply_ti_steer_torque_limits ::
  "real \<Rightarrow> real \<Rightarrow> real \<Rightarrow> CarControllerParams \<Rightarrow> real" where
  \<comment> \<open>Modelled from the spec: the limiter of the auxiliary torque path.\<close>
  "apply_ti_steer_torque_limits new_steer steer_last driver_torque LIMITS =
     steer_limiter (TI_STEER_MAX LIMITS) (TI_STEER_DELTA LIMITS) (TI_STEER_DRIVER_ALLOWANCE LIMITS)
       (TI_STEER_DRIVER_FACTOR LIMITS) new_steer steer_last driver_torque"

subsection \<open>Inputs of a cycle\<close>

record Actuators =
  steer :: real
  steerOutputCan :: real
  accel :: real
  longControlState :: LongCtrlState

record CruiseControl =
  cancel :: bool
  resume :: bool
  override :: bool

record HUDControl =
  visualAlert :: VisualAlert

record CarControl =
  latActive :: bool
  longActive :: bool
  actuators :: Actuators
  cruiseControl :: CruiseControl
  hudControl :: HUDControl

record CarStateOut =
  standstill :: bool
  brakePressed :: bool
  gasPressed :: bool
  steeringTorque :: real

record CarState =
  out :: CarStateOut
  acc_msg :: msg
  crz_info :: msg
  crz_btns_counter :: real
  cam_laneinfo :: msg
  cam_lkas :: msg
  ti_lkas_allowed :: bool
  lkas_allowed_speed :: bool

text \<open>
  The keys of the two parameter stores that the controller only reads are inputs of the
  cycle: \<^verbatim>\<open>params.get_bool("BlendedACC")\<close>,
  \<^verbatim>\<open>params.get_bool("ExperimentalLongitudinalEnabled")\<close> and
  \<^verbatim>\<open>params_memory.get_int("CEStatus")\<close>, each read as one value per cycle.
\<close>

record ParamsIn =
  BlendedACC :: bool
  ExperimentalLongitudinalEnabled :: bool
  CEStatus :: int

subsection \<open>Controller state and outputs\<close>

text \<open>
  The fields of \<^verbatim>\<open>self\<close>. \<open>CEFramesCounter\<close> and \<open>Coasting\<close> are the two
  keys of \<^verbatim>\<open>params_memory\<close> that the controller writes; \<open>timer_ticks\<close> is the
  global tick count of the timer class.
\<close>

record CarController =
  CP :: CarParams
  ccp :: CarControllerParams
  apply_steer_last :: real
  ti_apply_steer_last :: real
  brake_counter :: int
  frame :: int
  hold_timer :: Timer
  hold_delay :: Timer
  resume_timer :: Timer
  cancel_delay :: Timer
  acc_filter :: FirstOrderFilter
  filtered_acc_last :: real
  CEFramesCounter :: int
  Coasting :: int
  timer_ticks :: int

text \<open>
  The frames appended to \<^verbatim>\<open>can_sends\<close>, one constructor per encoder function of
  \<^verbatim>\<open>mazdacan\<close> (not among the sources), holding the arguments of the call other
  than the packer, the car parameters and the controller itself.
\<close>

datatype command =
    ButtonCmd real Buttons
  | AlertCommand msg bool bool
  | RadarCommand int bool CarState bool
  | AccCmd msg bool bool
  | SteeringControl int real msg

record UpdateResult =
  self_new :: CarController
  CS_new :: CarState
  new_actuators :: Actuators
  can_sends :: "command list"

section \<open>The cycle\<close>

subsection \<open>Python's numeric conversions\<close>

definition py_round :: "real \<Rightarrow> int" where
  \<comment> \<open>\<^verbatim>\<open>round(x)\<close> on a float: to the nearest integer, a tie to the even one.\<close>
  "py_round v = (if frac v = 1 / 2 then (if even \<lfloor>v\<rfloor> then \<lfloor>v\<rfloor> else \<lceil>v\<rceil>) else round v)"

definition py_int :: "real \<Rightarrow> int" where
  \<comment> \<open>\<^verbatim>\<open>int(x)\<close> on a float: truncation towards zero.\<close>
  "py_int v = (if 0 \<le> v then \<lfloor>v\<rfloor> else \<lceil>v\<rceil>)"

subsection \<open>The resume condition\<close>

definition is_resuming :: "CarControl \<Rightarrow> CarState \<Rightarrow> error + bool" where
  \<comment> \<open>The chain of \<^verbatim>\<open>or\<close> reads \<^verbatim>\<open>CS.acc["RESUME"]\<close> only when every earlier
      operand is false; the result is used for its truth value.\<close>
  "is_resuming CC CS =
     (if resume (cruiseControl CC) \<or> override (cruiseControl CC) \<or> gasPressed (out CS)
         \<or> longControlState (actuators CC) = starting
      then Inr True
      else (case lookup (acc_msg CS) ''RESUME'' of Inl e \<Rightarrow> Inl e | Inr v \<Rightarrow> Inr (v \<noteq> 0)))"

subsection \<open>Steering (lines 43 to 57)\<close>

definition steer_part :: "CarController \<Rightarrow> CarControl \<Rightarrow> CarState \<Rightarrow> real \<times> real" where
  \<comment> \<open>The pair \<^verbatim>\<open>(apply_steer, ti_apply_steer)\<close>.\<close>
  "steer_part self CC CS =
     (if latActive CC then
        (let new_steer = real_of_int (py_round (steer (actuators CC) * STEER_MAX (ccp self)));
             apply_steer = apply_driver_steer_torque_limits new_steer (apply_steer_last self)
                             (steeringTorque (out CS)) (ccp self)
         in if TORQUE_INTERCEPTOR \<in> flags (CP self) \<and> ti_lkas_allowed CS then
              (let ti_new_steer = real_of_int (py_round (steer (actuators CC) * TI_STEER_MAX (ccp self)))
               in (apply_steer,
                   apply_ti_steer_torque_limits ti_new_steer (ti_apply_steer_last self)
                     (steeringTorque (out CS)) (ccp self)))
            else (apply_steer, 0))
      else (0, 0))"

subsection \<open>Gen1: buttons, alert, radar path (lines 59 to 111)\<close>

definition gen1_buttons :: "CarController \<Rightarrow> CarControl \<Rightarrow> CarState \<Rightarrow> int \<times> command list" where
  \<comment> \<open>The new \<^verbatim>\<open>brake_counter\<close> and the button frames of the cycle.\<close>
  "gen1_buttons self CC CS =
     (if cancel (cruiseControl CC) then
        (let bc = brake_counter self + 1
         in (bc, if frame self mod 10 = 0 \<and> \<not> (brakePressed (out CS) \<and> bc < 7)
                 then [ButtonCmd (crz_btns_counter CS) CANCEL] else []))
      else
        (0, if resume (cruiseControl CC) \<and> frame self mod 5 = 0
            then [ButtonCmd (crz_btns_counter CS) RESUME] else []))"

definition gen1_alert :: "CarController \<Rightarrow> CarControl \<Rightarrow> CarState \<Rightarrow> command list" where
  "gen1_alert self CC CS =
     (if frame self mod 50 = 0 then
        (let ldw_flag = (visualAlert (hudControl CC) = ldw);
             steer_required = (visualAlert (hudControl CC) = steerRequired);
             steer_required = (steer_required \<and> lkas_allowed_speed CS)
         in [AlertCommand (cam_laneinfo CS) ldw_flag steer_required])
      else [])"

definition gen1_accel ::
  "(real \<Rightarrow> real) \<Rightarrow> CarController \<Rightarrow> CarControl \<Rightarrow> CarState \<Rightarrow> ParamsIn
     \<Rightarrow> error + (CarController \<times> CarState)" where
  \<comment> \<open>Lines 92 to 108. In the branch without blending the clamped raw output is bound to
      the local \<^verbatim>\<open>acc_output\<close>, which nothing reads.\<close>
  "gen1_accel clamp self CC CS P =
     (if longActive CC then
        (let raw_acc_output = accel (actuators CC) * 1150;
             raw_acc_output = max (- 1000) (min raw_acc_output 1000)
         in if BlendedACC P then
              (if CEStatus P \<noteq> 0 then
                 (let f = update_alpha clamp (\<bar>raw_acc_output - filtered_acc_last self\<bar> / 1000)
                            (acc_filter self);
                      (y, f) = filter_update raw_acc_output f;
                      filtered_acc_output = real_of_int (py_int y)
                  in Inr (self\<lparr>acc_filter := f, filtered_acc_last := filtered_acc_output\<rparr>,
                          CS\<lparr>crz_info := (crz_info CS)(''ACCEL_CMD'' \<mapsto>
                                real_of_int (py_int filtered_acc_output))\<rparr>))
               else
                 (case lookup (crz_info CS) ''ACCEL_CMD'' of
                    Inl e \<Rightarrow> Inl e
                  | Inr stock \<Rightarrow>
                      (let f = update_alpha clamp (\<bar>stock - filtered_acc_last self\<bar> / 1000)
                                 (acc_filter self);
                           (y, f) = filter_update stock f;
                           filtered_acc_output = real_of_int (py_int y)
                       in Inr (self\<lparr>acc_filter := f, filtered_acc_last := filtered_acc_output\<rparr>,
                               CS\<lparr>crz_info := (crz_info CS)(''ACCEL_CMD'' \<mapsto>
                                     real_of_int (py_int filtered_acc_output))\<rparr>))))
            else Inr (self, CS))
      else Inr (self, CS))"

definition gen1_radar ::
  "(real \<Rightarrow> real) \<Rightarrow> CarController \<Rightarrow> CarControl \<Rightarrow> CarState \<Rightarrow> ParamsIn
     \<Rightarrow> error + (CarController \<times> CarState \<times> command list)" where
  \<comment> \<open>Lines 85 to 111.\<close>
  "gen1_radar clamp self CC CS P =
     (if RADAR_INTERCEPTOR \<in> flags (CP self) then
        (let hold = (if standstill (out CS) then timer_active (hold_timer self) else False);
             self = (if standstill (out CS) then self
                     else self\<lparr>hold_timer := timer_reset (hold_timer self)\<rparr>)
         in case gen1_accel clamp self CC CS P of
              Inl e \<Rightarrow> Inl e
            | Inr (self, CS) \<Rightarrow>
                Inr (self, CS,
                     if frame self mod 2 = 0
                     then [RadarCommand (frame self) (longActive CC) CS hold] else []))
      else Inr (self, CS, []))"

definition gen1 ::
  "(real \<Rightarrow> real) \<Rightarrow> CarController \<Rightarrow> CarControl \<Rightarrow> CarState \<Rightarrow> ParamsIn
     \<Rightarrow> error + (CarController \<times> CarState \<times> command list)" where
  "gen1 clamp self CC CS P =
     (let (bc, buttons) = gen1_buttons self CC CS;
          alert = gen1_alert self CC CS;
          self = self\<lparr>brake_counter := bc\<rparr>
      in case gen1_radar clamp self CC CS P of
           Inl e \<Rightarrow> Inl e
         | Inr (self, CS, radar) \<Rightarrow> Inr (self, CS, buttons @ alert @ radar))"

subsection \<open>Gen2: acceleration blending and the ACC command (lines 113 to 179)\<close>

definition gen2_raw_acc_output :: "CarController \<Rightarrow> CarControl \<Rightarrow> CarState \<Rightarrow> ParamsIn \<Rightarrow> error + real" where
  \<comment> \<open>Lines 116 to 120.\<close>
  "gen2_raw_acc_output self CC CS P =
     (case is_resuming CC CS of
        Inl e \<Rightarrow> Inl e
      | Inr resuming \<Rightarrow>
          if resuming \<and> BlendedACC P \<and> CEFramesCounter self = 0
          then lookup (acc_msg CS) ''ACCEL_CMD''
          else Inr (accel (actuators CC) * 240 + 2000))"

definition gen2_acc_output ::
  "(real \<Rightarrow> real) \<Rightarrow> CarController \<Rightarrow> CarState \<Rightarrow> ParamsIn \<Rightarrow> real \<Rightarrow> error + (CarController \<times> real)" where
  \<comment> \<open>Lines 122 to 143: the controller after the blending step and \<^verbatim>\<open>acc_output\<close>.\<close>
  "gen2_acc_output clamp self CS P raw_acc_output =
     (if BlendedACC P then
        (let c = CEFramesCounter self
         in if CEStatus P \<noteq> 0 then
              (let f = update_alpha clamp (real_of_int (20 - c) / 500 + 1 / 100) (acc_filter self);
                   (y, f) = filter_update raw_acc_output f;
                   filtered_acc_output = real_of_int (py_int y)
               in Inr (self\<lparr>acc_filter := f,
                            CEFramesCounter := (if c < 20 then c + 1 else 20),
                            filtered_acc_last := filtered_acc_output\<rparr>,
                       filtered_acc_output))
            else if c > 0 then
              (case lookup (acc_msg CS) ''ACCEL_CMD'' of
                 Inl e \<Rightarrow> Inl e
               | Inr stock \<Rightarrow>
                   (let f = update_alpha clamp (real_of_int c / 500 + 1 / 100) (acc_filter self);
                        (y, f) = filter_update stock f;
                        filtered_acc_output = real_of_int (py_int y)
                    in Inr (self\<lparr>acc_filter := f,
                                 CEFramesCounter := (if c > 0 then c - 1 else 0),
                                 filtered_acc_last := filtered_acc_output\<rparr>,
                            filtered_acc_output)))
            else
              (case lookup (acc_msg CS) ''ACCEL_CMD'' of
                 Inl e \<Rightarrow> Inl e
               | Inr stock \<Rightarrow> Inr (self\<lparr>filtered_acc_last := stock\<rparr>, stock)))
      else Inr (self, raw_acc_output))"

definition gen2_write_back :: "CarControl \<Rightarrow> CarState \<Rightarrow> ParamsIn \<Rightarrow> real \<Rightarrow> CarState" where
  \<comment> \<open>Lines 153 and 154.\<close>
  "gen2_write_back CC CS P acc_output =
     (if ExperimentalLongitudinalEnabled P \<and> longActive CC
      then CS\<lparr>acc_msg := (acc_msg CS)(''ACCEL_CMD'' \<mapsto> acc_output)\<rparr>
      else CS)"

definition gen2_hold_resume ::
  "CarController \<Rightarrow> CarControl \<Rightarrow> CarState \<Rightarrow> error + (CarController \<times> command list)" where
  \<comment> \<open>Lines 157 to 179.\<close>
  "gen2_hold_resume self CC CS =
     (if timer_interval (timer_ticks self) 2 then
        (case (if standstill (out CS) then
                 (if \<not> timer_active (hold_delay self) then
                    (case is_resuming CC CS of
                       Inl e \<Rightarrow> Inl e
                     | Inr resuming \<Rightarrow>
                         if resuming
                         then Inr (self\<lparr>resume_timer := timer_reset (resume_timer self)\<rparr>, False)
                         else Inr (self, timer_active (hold_timer self)))
                  else Inr (self, False))
               else Inr (self\<lparr>hold_timer := timer_reset (hold_timer self),
                               hold_delay := timer_reset (hold_delay self)\<rparr>, False)) of
           Inl e \<Rightarrow> Inl e
         | Inr (self, hold) \<Rightarrow>
             (let resume_flag = timer_active (resume_timer self)
              in Inr (self, [AccCmd (acc_msg CS) hold resume_flag])))
      else Inr (self, []))"

definition gen2 ::
  "(real \<Rightarrow> real) \<Rightarrow> CarController \<Rightarrow> CarControl \<Rightarrow> CarState \<Rightarrow> ParamsIn
     \<Rightarrow> error + (CarController \<times> CarState \<times> command list)" where
  "gen2 clamp self CC CS P =
     (case gen2_raw_acc_output self CC CS P of
        Inl e \<Rightarrow> Inl e
      | Inr raw_acc_output \<Rightarrow>
          (case gen2_acc_output clamp self CS P raw_acc_output of
             Inl e \<Rightarrow> Inl e
           | Inr (self, acc_output) \<Rightarrow>
               (let CS = gen2_write_back CC CS P acc_output
                in case gen2_hold_resume self CC CS of
                     Inl e \<Rightarrow> Inl e
                   | Inr (self, cmds) \<Rightarrow> Inr (self, CS, cmds))))"

subsection \<open>The whole cycle and the constructor\<close>

definition tick_all :: "CarController \<Rightarrow> CarController" where
  \<comment> \<open>\<^verbatim>\<open>Timer.tick()\<close>: one global tick advances every timer.\<close>
  "tick_all self =
     self\<lparr>hold_timer := timer_tick (hold_timer self),
          hold_delay := timer_tick (hold_delay self),
          resume_timer := timer_tick (resume_timer self),
          cancel_delay := timer_tick (cancel_delay self),
          timer_ticks := timer_ticks self + 1\<rparr>"

definition update ::
  "(real \<Rightarrow> real) \<Rightarrow> CarController \<Rightarrow> CarControl \<Rightarrow> CarState \<Rightarrow> ParamsIn \<Rightarrow> error + UpdateResult" where
  "update clamp self CC CS P =
     (let (apply_steer, ti_apply_steer) = steer_part self CC CS;
          self = self\<lparr>apply_steer_last := apply_steer, ti_apply_steer_last := ti_apply_steer\<rparr>
      in case (if GEN1 \<in> flags (CP self) then gen1 clamp self CC CS P
               else gen2 clamp self CC CS P) of
           Inl e \<Rightarrow> Inl e
         | Inr (self, CS, cmds) \<Rightarrow>
             if STEER_MAX (ccp self) = 0 then Inl ZeroDivisionError
             else Inr \<lparr>self_new = tick_all (self\<lparr>frame := frame self + 1\<rparr>),
                       CS_new = CS,
                       new_actuators = (actuators CC)\<lparr>steer := apply_steer / STEER_MAX (ccp self),
                                                       steerOutputCan := apply_steer\<rparr>,
                       can_sends = cmds @ [SteeringControl (frame self) apply_steer (cam_lkas CS)]\<rparr>)"

definition init :: "(real \<Rightarrow> real) \<Rightarrow> CarParams \<Rightarrow> CarControllerParams \<Rightarrow> CarController" where
  \<comment> \<open>\<^verbatim>\<open>__init__\<close>; the limiter parameters, built there from \<^verbatim>\<open>CP\<close> by the absent
      \<^verbatim>\<open>CarControllerParams\<close>, are an argument.\<close>
  "init clamp cp limits =
     \<lparr>CP = cp, ccp = limits, apply_steer_last = 0, ti_apply_steer_last = 0, brake_counter = 0,
      frame = 0, hold_timer = Timer_new 6, hold_delay = Timer_new (1 / 2),
      resume_timer = Timer_new (1 / 2), cancel_delay = Timer_new (7 / 100),
      acc_filter = FirstOrderFilter_new clamp 0 (1 / 10) False, filtered_acc_last = 0,
      CEFramesCounter = 0, Coasting = 0, timer_ticks = 0\<rparr>"

subsection \<open>Sequences of cycles\<close>

record CycleInput =
  in_CC :: CarControl
  in_CS :: CarState
  in_P :: ParamsIn

definition cycle :: "(real \<Rightarrow> real) \<Rightarrow> CarController \<Rightarrow> CycleInput \<Rightarrow> error + UpdateResult" where
  "cycle clamp self i = update clamp self (in_CC i) (in_CS i) (in_P i)"

fun run :: "(real \<Rightarrow> real) \<Rightarrow> CarController \<Rightarrow> CycleInput list \<Rightarrow> error + UpdateResult list" where
  \<comment> \<open>The results of consecutive cycles; the run ends at the first cycle that raises.\<close>
  "run clamp self [] = Inr []"
| "run clamp self (i # ins) =
     (case cycle clamp self i of
        Inl e \<Rightarrow> Inl e
      | Inr r \<Rightarrow> (case run clamp (self_new r) ins of Inl e \<Rightarrow> Inl e | Inr rs \<Rightarrow> Inr (r # rs)))"

definition final :: "CarController \<Rightarrow> UpdateResult list \<Rightarrow> CarController" where
  \<comment> \<open>The controller after a run.\<close>
  "final self rs = (if rs = [] then self else self_new (last rs))"

section \<open>Notions used in the statements\<close>

definition steered :: "CarController \<Rightarrow> CarControl \<Rightarrow> CarState \<Rightarrow> CarController" where
  \<comment> \<open>The controller after lines 43 to 57.\<close>
  "steered self CC CS = self\<lparr>apply_steer_last := fst (steer_part self CC CS),
                               ti_apply_steer_last := snd (steer_part self CC CS)\<rparr>"

definition same_core :: "CarController \<Rightarrow> CarController \<Rightarrow> bool" where
  \<comment> \<open>The fields that neither the Gen1 nor the Gen2 branch assigns, and the brake counter.\<close>
  "same_core s' s \<longleftrightarrow> CP s' = CP s \<and> ccp s' = ccp s \<and> frame s' = frame s
     \<and> apply_steer_last s' = apply_steer_last s \<and> ti_apply_steer_last s' = ti_apply_steer_last s
     \<and> brake_counter s' = brake_counter s \<and> timer_ticks s' = timer_ticks s
     \<and> cancel_delay s' = cancel_delay s \<and> Coasting s' = Coasting s"

definition steer_bounded :: "CarParams \<Rightarrow> CarControllerParams \<Rightarrow> CarController \<Rightarrow> bool" where
  \<comment> \<open>The configuration is the given one and both stored steer values are within their maximum.\<close>
  "steer_bounded cp limits s \<longleftrightarrow> CP s = cp \<and> ccp s = limits
     \<and> \<bar>apply_steer_last s\<bar> \<le> STEER_MAX limits \<and> \<bar>ti_apply_steer_last s\<bar> \<le> TI_STEER_MAX limits"

definition gen2_computed_accel ::
  "(real \<Rightarrow> real) \<Rightarrow> CarController \<Rightarrow> CarControl \<Rightarrow> CarState \<Rightarrow> ParamsIn \<Rightarrow> error + real" where
  \<comment> \<open>The value of \<^verbatim>\<open>acc_output\<close> at line 153.\<close>
  "gen2_computed_accel clamp self CC CS P =
     (case gen2_raw_acc_output self CC CS P of
        Inl e \<Rightarrow> Inl e
      | Inr raw_acc_output \<Rightarrow>
          (case gen2_acc_output clamp self CS P raw_acc_output of
             Inl e \<Rightarrow> Inl e
           | Inr (self, acc_output) \<Rightarrow> Inr acc_output))"

definition with_accel :: "CarControl \<Rightarrow> real \<Rightarrow> CarControl" where
  \<comment> \<open>The same planner intent with another acceleration command.\<close>
  "with_accel CC a = CC\<lparr>actuators := (actuators CC)\<lparr>accel := a\<rparr>\<rparr>"

definition wf_CS :: "CarState \<Rightarrow> bool" where
  \<comment> \<open>The decoded messages carry the signals that the controller reads.\<close>
  "wf_CS CS \<longleftrightarrow> acc_msg CS ''ACCEL_CMD'' \<noteq> None \<and> acc_msg CS ''RESUME'' \<noteq> None
      \<and> crz_info CS ''ACCEL_CMD'' \<noteq> None"

definition states :: "CarController \<Rightarrow> UpdateResult list \<Rightarrow> CarController list" where
  \<comment> \<open>The controller before the first cycle of a run and after each of its cycles.\<close>
  "states self rs = self # map self_new rs"

fun hold_resume_flags :: "command list \<Rightarrow> (bool \<times> bool) list" where
  \<comment> \<open>The pairs \<open>(hold, resume)\<close> of the ACC command frames of a cycle.\<close>
  "hold_resume_flags [] = []"
| "hold_resume_flags (AccCmd m h r # cs) = (h, r) # hold_resume_flags cs"
| "hold_resume_flags (c # cs) = hold_resume_flags cs"

fun is_cancel :: "command \<Rightarrow> bool" where
  "is_cancel (ButtonCmd n b) = (b = CANCEL)"
| "is_cancel c = False"

definition cancel_sent :: "UpdateResult \<Rightarrow> bool" where
  \<comment> \<open>The cycle emitted a cancel-button frame.\<close>
  "cancel_sent r \<longleftrightarrow> list_ex is_cancel (can_sends r)"

definition cancel_offsets :: "UpdateResult list \<Rightarrow> nat list" where
  \<comment> \<open>The zero-indexed cycles of a run that emitted a cancel-button frame.\<close>
  "cancel_offsets rs = filter (\<lambda>k. cancel_sent (rs ! k)) [0..<length rs]"

section \<open>Example inputs\<close>

definition example_clamp :: "real \<Rightarrow> real" where
  "example_clamp a = min 1 (max (1 / 1000) a)"

definition example_limits :: CarControllerParams where
  "example_limits = \<lparr>STEER_MAX = 800, STEER_DELTA = 10, STEER_DRIVER_ALLOWANCE = 15,
     STEER_DRIVER_FACTOR = 1, TI_STEER_MAX = 600, TI_STEER_DELTA = 10,
     TI_STEER_DRIVER_ALLOWANCE = 15, TI_STEER_DRIVER_FACTOR = 1\<rparr>"

definition idle_CC :: CarControl where
  "idle_CC = \<lparr>latActive = False, longActive = False,
     actuators = \<lparr>steer = 0, steerOutputCan = 0, accel = 0, longControlState = off\<rparr>,
     cruiseControl = \<lparr>cancel = False, resume = False, override = False\<rparr>,
     hudControl = \<lparr>visualAlert = none\<rparr>\<rparr>"

definition idle_CS :: CarState where
  "idle_CS = \<lparr>out = \<lparr>standstill = False, brakePressed = False, gasPressed = False,
                     steeringTorque = 0\<rparr>,
     acc_msg = [''ACCEL_CMD'' \<mapsto> 2000, ''RESUME'' \<mapsto> 0], crz_info = [''ACCEL_CMD'' \<mapsto> 0],
     crz_btns_counter = 0, cam_laneinfo = Map.empty, cam_lkas = Map.empty,
     ti_lkas_allowed = False, lkas_allowed_speed = False\<rparr>"

definition idle_P :: ParamsIn where
  "idle_P = \<lparr>BlendedACC = False, ExperimentalLongitudinalEnabled = False, CEStatus = 0\<rparr>"

definition idle_in :: CycleInput where
  "idle_in = \<lparr>in_CC = idle_CC, in_CS = idle_CS, in_P = idle_P\<rparr>"

definition stopped_CS :: CarState where
  "stopped_CS = idle_CS\<lparr>out := (out idle_CS)\<lparr>standstill := True\<rparr>\<rparr>"

definition resume_CC :: CarControl where
  "resume_CC = idle_CC\<lparr>cruiseControl := (cruiseControl idle_CC)\<lparr>resume := True\<rparr>\<rparr>"

definition cancel_CC :: CarControl where
  "cancel_CC = idle_CC\<lparr>cruiseControl := (cruiseControl idle_CC)\<lparr>cancel := True\<rparr>\<rparr>"

definition stopped_in :: CycleInput where
  "stopped_in = \<lparr>in_CC = idle_CC, in_CS = stopped_CS, in_P = idle_P\<rparr>"

definition stopped_resume_in :: CycleInput where
  "stopped_resume_in = \<lparr>in_CC = resume_CC, in_CS = stopped_CS, in_P = idle_P\<rparr>"

definition cancel_in :: CycleInput where
  "cancel_in = \<lparr>in_CC = cancel_CC, in_CS = idle_CS, in_P = idle_P\<rparr>"

definition blend_in :: CycleInput where
  \<comment> \<open>Blended-ACC mode on while the stock-active flag is set.\<close>
  "blend_in = \<lparr>in_CC = idle_CC, in_CS = idle_CS,
               in_P = \<lparr>BlendedACC = True, ExperimentalLongitudinalEnabled = False, CEStatus = 1\<rparr>\<rparr>"

definition gen1_init :: CarController where
  "gen1_init = init example_clamp \<lparr>flags = {GEN1, RADAR_INTERCEPTOR}\<rparr> example_limits"

definition gen2_init :: CarController where
  "gen2_init = init example_clamp \<lparr>flags = {}\<rparr> example_limits"

definition long_CC :: CarControl where
  "long_CC = idle_CC\<lparr>longActive := True, actuators := (actuators idle_CC)\<lparr>accel := 1\<rparr>\<rparr>"

definition resume_accel_CC :: CarControl where
  "resume_accel_CC = resume_CC\<lparr>actuators := (actuators resume_CC)\<lparr>accel := 1\<rparr>\<rparr>"

definition exp_P :: ParamsIn where
  "exp_P = idle_P\<lparr>ExperimentalLongitudinalEnabled := True\<rparr>"

definition blend_P :: ParamsIn where
  "blend_P = idle_P\<lparr>BlendedACC := True\<rparr>"

definition stopped_for :: "nat \<Rightarrow> CarController" where
  \<comment> \<open>The Gen2 example controller after \<open>n\<close> cycles at standstill since construction.\<close>
  "stopped_for n = gen2_init\<lparr>frame := int n,
       hold_timer := \<lparr>duration = 6, elapsed = real n / 100\<rparr>,
       hold_delay := \<lparr>duration = 1 / 2, elapsed = real n / 100\<rparr>,
       resume_timer := \<lparr>duration = 1 / 2, elapsed = real n / 100\<rparr>,
       cancel_delay := \<lparr>duration = 7 / 100, elapsed = real n / 100\<rparr>,
       timer_ticks := int n\<rparr>"

definition steer_CC :: CarControl where
  "steer_CC = idle_CC\<lparr>latActive := True, actuators := (actuators idle_CC)\<lparr>steer := 1\<rparr>\<rparr>"

definition steer_in :: CycleInput where
  "steer_in = \<lparr>in_CC = steer_CC, in_CS = idle_CS\<lparr>ti_lkas_allowed := True\<rparr>, in_P = idle_P\<rparr>"

definition ti_CP :: CarParams where
  "ti_CP = \<lparr>flags = {GEN1, TORQUE_INTERCEPTOR}\<rparr>"

definition brake_cancel_in :: CycleInput where
  "brake_cancel_in = cancel_in\<lparr>in_CS := idle_CS\<lparr>out := (out idle_CS)\<lparr>brakePressed := True\<rparr>\<rparr>\<rparr>"

definition late_cancel :: "CycleInput list" where
  \<comment> \<open>Three idle cycles, then cancel intent for 100 cycles with the brake released.\<close>
  "late_cancel = replicate 3 idle_in @ replicate 100 cancel_in"

definition resume_then_hold :: "CycleInput list" where
  \<comment> \<open>Half a second at standstill, one cycle with resume intent, two cycles without.\<close>
  "resume_then_hold = replicate 50 stopped_in @ [stopped_resume_in, stopped_in, stopped_in]"

lemmas model_defs = update_def cycle_def gen2_def gen2_raw_acc_output_def gen2_acc_output_def
  gen2_write_back_def gen2_hold_resume_def is_resuming_def lookup_def steer_part_def tick_all_def
  timer_tick_def timer_reset_def timer_active_def timer_interval_def DT_CTRL_def init_def
  Timer_new_def FirstOrderFilter_new_def gen1_def gen1_buttons_def gen1_alert_def gen1_radar_def
  gen1_accel_def update_alpha_def filter_update_def apply_driver_steer_torque_limits_def
  apply_ti_steer_torque_limits_def steer_limiter_def clip_def

lemmas example_defs = example_clamp_def example_limits_def idle_CC_def idle_CS_def idle_P_def
  idle_in_def stopped_CS_def resume_CC_def cancel_CC_def stopped_in_def stopped_resume_in_def
  cancel_in_def gen1_init_def gen2_init_def blend_in_def long_CC_def resume_accel_CC_def exp_P_def
  blend_P_def steer_CC_def steer_in_def ti_CP_def brake_cancel_in_def

section \<open>A cycle returns on well-formed input\<close>

lemma is_resuming_returns: "wf_CS CS \<Longrightarrow> \<exists>b. is_resuming CC CS = Inr b"
  by (auto simp: is_resuming_def lookup_def wf_CS_def split: option.splits)

lemma gen2_raw_returns: "wf_CS CS \<Longrightarrow> \<exists>v. gen2_raw_acc_output self CC CS P = Inr v"
  using is_resuming_returns[of CS CC]
  by (auto simp: gen2_raw_acc_output_def lookup_def wf_CS_def split: option.splits sum.splits)

lemma gen2_acc_output_returns: "wf_CS CS \<Longrightarrow> \<exists>v. gen2_acc_output clamp self CS P raw = Inr v"
  by (auto simp: gen2_acc_output_def lookup_def wf_CS_def Let_def
      split: option.splits sum.splits prod.splits)

lemma wf_CS_write_back: "wf_CS CS \<Longrightarrow> wf_CS (gen2_write_back CC CS P v)"
  by (simp add: wf_CS_def gen2_write_back_def)

lemma gen2_hold_resume_returns: "wf_CS CS \<Longrightarrow> \<exists>v. gen2_hold_resume self CC CS = Inr v"
  using is_resuming_returns[of CS CC]
  by (auto simp: gen2_hold_resume_def Let_def split: sum.splits prod.splits)

lemma gen2_returns: "wf_CS CS \<Longrightarrow> \<exists>v. gen2 clamp self CC CS P = Inr v"
proof -
  assume wf: "wf_CS CS"
  obtain raw where 1: "gen2_raw_acc_output self CC CS P = Inr raw"
    using gen2_raw_returns[OF wf] by blast
  obtain s1 a where 2: "gen2_acc_output clamp self CS P raw = Inr (s1, a)"
    using gen2_acc_output_returns[OF wf] by (metis surj_pair)
  obtain s2 c where 3: "gen2_hold_resume s1 CC (gen2_write_back CC CS P a) = Inr (s2, c)"
    using gen2_hold_resume_returns[OF wf_CS_write_back[OF wf]] by (metis surj_pair)
  show ?thesis by (simp add: gen2_def 1 2 3)
qed

lemma gen1_accel_returns: "wf_CS CS \<Longrightarrow> \<exists>v. gen1_accel clamp self CC CS P = Inr v"
  by (auto simp: gen1_accel_def lookup_def wf_CS_def Let_def
      split: option.splits sum.splits prod.splits)

lemma gen1_radar_returns: "wf_CS CS \<Longrightarrow> \<exists>v. gen1_radar clamp self CC CS P = Inr v"
proof -
  assume wf: "wf_CS CS"
  show ?thesis
    using gen1_accel_returns[OF wf, of clamp self CC P]
      gen1_accel_returns[OF wf, of clamp "self\<lparr>hold_timer := timer_reset (hold_timer self)\<rparr>" CC P]
    by (auto simp: gen1_radar_def Let_def split: sum.splits prod.splits)
qed

lemma gen1_returns: "wf_CS CS \<Longrightarrow> \<exists>v. gen1 clamp self CC CS P = Inr v"
proof -
  assume wf: "wf_CS CS"
  obtain bc b where 1: "gen1_buttons self CC CS = (bc, b)" by (metis surj_pair)
  from gen1_radar_returns[OF wf, of clamp "self\<lparr>brake_counter := bc\<rparr>" CC P]
  show ?thesis by (auto simp: gen1_def 1 Let_def split: sum.splits prod.splits)
qed

section \<open>The parts of a cycle, from its result\<close>

lemma update_gen1:
  assumes "GEN1 \<in> flags (CP self)" and "update clamp self CC CS P = Inr r"
  shows "\<exists>s' CS' cmds. gen1 clamp (steered self CC CS) CC CS P = Inr (s', CS', cmds)
           \<and> self_new r = tick_all (s'\<lparr>frame := frame s' + 1\<rparr>) \<and> CS_new r = CS'
           \<and> can_sends r = cmds @ [SteeringControl (frame s') (fst (steer_part self CC CS)) (cam_lkas CS')]
           \<and> steerOutputCan (new_actuators r) = fst (steer_part self CC CS)"
  using assms
  by (auto simp: update_def steered_def Let_def split: prod.splits sum.splits if_splits)

lemma update_gen2:
  assumes "GEN1 \<notin> flags (CP self)" and "update clamp self CC CS P = Inr r"
  shows "\<exists>s' CS' cmds. gen2 clamp (steered self CC CS) CC CS P = Inr (s', CS', cmds)
           \<and> self_new r = tick_all (s'\<lparr>frame := frame s' + 1\<rparr>) \<and> CS_new r = CS'
           \<and> can_sends r = cmds @ [SteeringControl (frame s') (fst (steer_part self CC CS)) (cam_lkas CS')]
           \<and> steerOutputCan (new_actuators r) = fst (steer_part self CC CS)"
  using assms
  by (auto simp: update_def steered_def Let_def split: prod.splits sum.splits if_splits)

lemma gen1_inv:
  assumes "gen1 clamp self CC CS P = Inr (s', CS', cmds)"
  shows "\<exists>radar. gen1_radar clamp (self\<lparr>brake_counter := fst (gen1_buttons self CC CS)\<rparr>) CC CS P
                    = Inr (s', CS', radar)
           \<and> cmds = snd (gen1_buttons self CC CS) @ gen1_alert self CC CS @ radar"
  using assms
  by (auto simp: gen1_def Let_def split: prod.splits sum.splits)

lemma gen1_accel_inv:
  assumes "gen1_accel clamp self CC CS P = Inr (s', CS')"
  shows "same_core s' self \<and> hold_timer s' = hold_timer self
       \<and> CEFramesCounter s' = CEFramesCounter self
       \<and> (\<not> (longActive CC \<and> BlendedACC P) \<longrightarrow> s' = self \<and> CS' = CS)"
  using assms
  by (auto simp: gen1_accel_def same_core_def Let_def split: prod.splits sum.splits if_splits)

lemma gen1_radar_inv:
  assumes "gen1_radar clamp self CC CS P = Inr (s', CS', radar)"
  shows "same_core s' self \<and> CEFramesCounter s' = CEFramesCounter self
       \<and> (\<not> (longActive CC \<and> BlendedACC P) \<longrightarrow> CS' = CS)
       \<and> (RADAR_INTERCEPTOR \<in> flags (CP self) \<longrightarrow>
            radar = (if frame self mod 2 = 0
                     then [RadarCommand (frame self) (longActive CC) CS'
                             (standstill (out CS) \<and> timer_active (hold_timer self))]
                     else [])
            \<and> (\<not> standstill (out CS) \<longrightarrow> hold_timer s' = timer_reset (hold_timer self)))
       \<and> (RADAR_INTERCEPTOR \<notin> flags (CP self) \<longrightarrow> radar = [])"
proof (cases "RADAR_INTERCEPTOR \<in> flags (CP self)")
  case False
  with assms show ?thesis by (simp add: gen1_radar_def same_core_def)
next
  case True
  let ?s = "if standstill (out CS) then self else self\<lparr>hold_timer := timer_reset (hold_timer self)\<rparr>"
  from assms True have a: "gen1_accel clamp ?s CC CS P = Inr (s', CS')"
    by (cases "standstill (out CS)")
      (simp_all add: gen1_radar_def Let_def split: sum.splits prod.splits)
  have s: "same_core s' ?s" "hold_timer s' = hold_timer ?s" "CEFramesCounter s' = CEFramesCounter ?s"
    and cs: "\<not> (longActive CC \<and> BlendedACC P) \<longrightarrow> CS' = CS"
    using gen1_accel_inv[OF a] by simp_all
  have f: "frame s' = frame self"
    using s(1) by (simp add: same_core_def split: if_splits)
  from assms True a f have r: "radar = (if frame self mod 2 = 0
       then [RadarCommand (frame self) (longActive CC) CS'
               (if standstill (out CS) then timer_active (hold_timer self) else False)] else [])"
    by (cases "standstill (out CS)") (auto simp: gen1_radar_def Let_def split: if_splits)
  from s cs r True show ?thesis
    by (auto simp: same_core_def split: if_splits)
qed

lemma gen1_same:
  assumes "gen1 clamp self CC CS P = Inr (s', CS', cmds)"
  shows "same_core s' (self\<lparr>brake_counter := fst (gen1_buttons self CC CS)\<rparr>)
           \<and> CEFramesCounter s' = CEFramesCounter self"
proof -
  obtain radar where rd: "gen1_radar clamp (self\<lparr>brake_counter := fst (gen1_buttons self CC CS)\<rparr>) CC CS P
                    = Inr (s', CS', radar)"
    using gen1_inv[OF assms] by blast
  from gen1_radar_inv[OF rd] show ?thesis by simp
qed

lemma gen2_acc_output_inv:
  assumes "gen2_acc_output clamp self CS P raw = Inr (s', v)"
  shows "same_core s' self \<and> hold_timer s' = hold_timer self \<and> hold_delay s' = hold_delay self
       \<and> resume_timer s' = resume_timer self
       \<and> CEFramesCounter s' =
           (if BlendedACC P then
              (if CEStatus P \<noteq> 0 then (if CEFramesCounter self < 20 then CEFramesCounter self + 1 else 20)
               else if CEFramesCounter self > 0 then CEFramesCounter self - 1
               else CEFramesCounter self)
            else CEFramesCounter self)"
  using assms
  by (auto simp: gen2_acc_output_def same_core_def Let_def split: prod.splits sum.splits if_splits)

lemma gen2_hold_resume_inv:
  assumes "gen2_hold_resume self CC CS = Inr (s', cmds)"
  shows "same_core s' self \<and> CEFramesCounter s' = CEFramesCounter self"
  using assms
  by (auto simp: gen2_hold_resume_def same_core_def Let_def split: prod.splits sum.splits if_splits)

lemma gen2_inv:
  assumes "gen2 clamp self CC CS P = Inr (s', CS', cmds)"
  shows "\<exists>raw s1 a. gen2_raw_acc_output self CC CS P = Inr raw
           \<and> gen2_acc_output clamp self CS P raw = Inr (s1, a)
           \<and> CS' = gen2_write_back CC CS P a
           \<and> gen2_hold_resume s1 CC CS' = Inr (s', cmds)"
  using assms
  by (auto simp: gen2_def Let_def split: prod.splits sum.splits)

lemma gen2_same:
  assumes "gen2 clamp self CC CS P = Inr (s', CS', cmds)"
  shows "same_core s' self
       \<and> CEFramesCounter s' =
           (if BlendedACC P then
              (if CEStatus P \<noteq> 0 then (if CEFramesCounter self < 20 then CEFramesCounter self + 1 else 20)
               else if CEFramesCounter self > 0 then CEFramesCounter self - 1
               else CEFramesCounter self)
            else CEFramesCounter self)"
proof -
  obtain raw s1 a where 1: "gen2_acc_output clamp self CS P raw = Inr (s1, a)"
    and 2: "gen2_hold_resume s1 CC CS' = Inr (s', cmds)"
    using gen2_inv[OF assms] by blast
  from gen2_acc_output_inv[OF 1] gen2_hold_resume_inv[OF 2] show ?thesis
    by (simp add: same_core_def)
qed

lemma steered_fields:
  "CP (steered self CC CS) = CP self" "ccp (steered self CC CS) = ccp self"
  "frame (steered self CC CS) = frame self" "brake_counter (steered self CC CS) = brake_counter self"
  "CEFramesCounter (steered self CC CS) = CEFramesCounter self"
  "timer_ticks (steered self CC CS) = timer_ticks self"
  "hold_timer (steered self CC CS) = hold_timer self"
  "hold_delay (steered self CC CS) = hold_delay self"
  "resume_timer (steered self CC CS) = resume_timer self"
  "apply_steer_last (steered self CC CS) = fst (steer_part self CC CS)"
  "ti_apply_steer_last (steered self CC CS) = snd (steer_part self CC CS)"
  by (simp_all add: steered_def)

lemma tick_all_fields:
  "CP (tick_all s) = CP s" "ccp (tick_all s) = ccp s" "frame (tick_all s) = frame s"
  "brake_counter (tick_all s) = brake_counter s" "CEFramesCounter (tick_all s) = CEFramesCounter s"
  "apply_steer_last (tick_all s) = apply_steer_last s"
  "ti_apply_steer_last (tick_all s) = ti_apply_steer_last s"
  "timer_ticks (tick_all s) = timer_ticks s + 1"
  "hold_timer (tick_all s) = timer_tick (hold_timer s)"
  by (simp_all add: tick_all_def)

lemma update_core:
  assumes "update clamp self CC CS P = Inr r"
  shows "CP (self_new r) = CP self \<and> ccp (self_new r) = ccp self
       \<and> frame (self_new r) = frame self + 1
       \<and> timer_ticks (self_new r) = timer_ticks self + 1
       \<and> apply_steer_last (self_new r) = fst (steer_part self CC CS)
       \<and> ti_apply_steer_last (self_new r) = snd (steer_part self CC CS)
       \<and> steerOutputCan (new_actuators r) = fst (steer_part self CC CS)"
proof (cases "GEN1 \<in> flags (CP self)")
  case True
  obtain s' CS' cmds where g: "gen1 clamp (steered self CC CS) CC CS P = Inr (s', CS', cmds)"
    and r: "self_new r = tick_all (s'\<lparr>frame := frame s' + 1\<rparr>)"
      "steerOutputCan (new_actuators r) = fst (steer_part self CC CS)"
    using update_gen1[OF True assms] by blast
  from gen1_same[OF g] r show ?thesis
    by (simp add: same_core_def tick_all_fields steered_fields)
next
  case False
  obtain s' CS' cmds where g: "gen2 clamp (steered self CC CS) CC CS P = Inr (s', CS', cmds)"
    and r: "self_new r = tick_all (s'\<lparr>frame := frame s' + 1\<rparr>)"
      "steerOutputCan (new_actuators r) = fst (steer_part self CC CS)"
    using update_gen2[OF False assms] by blast
  from gen2_same[OF g] r show ?thesis
    by (simp add: same_core_def tick_all_fields steered_fields)
qed

lemma update_counter:
  assumes "update clamp self CC CS P = Inr r"
  shows "CEFramesCounter (self_new r) =
           (if GEN1 \<notin> flags (CP self) \<and> BlendedACC P then
              (if CEStatus P \<noteq> 0 then (if CEFramesCounter self < 20 then CEFramesCounter self + 1 else 20)
               else if CEFramesCounter self > 0 then CEFramesCounter self - 1
               else CEFramesCounter self)
            else CEFramesCounter self)"
proof (cases "GEN1 \<in> flags (CP self)")
  case True
  obtain s' CS' cmds where g: "gen1 clamp (steered self CC CS) CC CS P = Inr (s', CS', cmds)"
    and r: "self_new r = tick_all (s'\<lparr>frame := frame s' + 1\<rparr>)"
    using update_gen1[OF True assms] by blast
  from gen1_same[OF g] r True show ?thesis
    by (simp add: tick_all_fields steered_fields)
next
  case False
  obtain s' CS' cmds where g: "gen2 clamp (steered self CC CS) CC CS P = Inr (s', CS', cmds)"
    and r: "self_new r = tick_all (s'\<lparr>frame := frame s' + 1\<rparr>)"
    using update_gen2[OF False assms] by blast
  from gen2_same[OF g] r False show ?thesis
    by (simp add: tick_all_fields steered_fields)
qed

lemma update_returns:
  assumes "STEER_MAX (ccp self) \<noteq> 0" and "wf_CS CS"
  shows "\<exists>r. update clamp self CC CS P = Inr r"
proof -
  let ?s = "steered self CC CS"
  have st: "(case steer_part self CC CS of (a, b) \<Rightarrow> f a b) = f (fst (steer_part self CC CS)) (snd (steer_part self CC CS))" for f :: "real \<Rightarrow> real \<Rightarrow> error + UpdateResult"
    by (simp add: case_prod_beta)
  show ?thesis
  proof (cases "GEN1 \<in> flags (CP self)")
    case True
    obtain s' CS' c where 2: "gen1 clamp ?s CC CS P = Inr (s', CS', c)"
      using gen1_returns[OF assms(2), of clamp ?s CC P] by (metis prod_cases3)
    from gen1_same[OF 2] have "ccp s' = ccp self" by (simp add: same_core_def steered_fields)
    with assms(1) 2 True show ?thesis
      unfolding update_def Let_def st by (simp add: steered_def[symmetric] steered_fields)
  next
    case False
    obtain s' CS' c where 2: "gen2 clamp ?s CC CS P = Inr (s', CS', c)"
      using gen2_returns[OF assms(2), of clamp ?s CC P] by (metis prod_cases3)
    from gen2_same[OF 2] have "ccp s' = ccp self" by (simp add: same_core_def steered_fields)
    with assms(1) 2 False show ?thesis
      unfolding update_def Let_def st by (simp add: steered_def[symmetric] steered_fields)
  qed
qed

section \<open>Runs\<close>

lemma not_isl_Inr: "\<not> isl x \<Longrightarrow> x = Inr (projr x)"
  by (cases x) simp_all

lemma run_Cons_inv:
  assumes "run clamp s (i # ins) = Inr rs"
  shows "\<exists>r rs'. cycle clamp s i = Inr r \<and> run clamp (self_new r) ins = Inr rs' \<and> rs = r # rs'"
  using assms by (auto split: sum.splits)

lemma run_length: "run clamp s ins = Inr rs \<Longrightarrow> length rs = length ins"
proof (induction ins arbitrary: s rs)
  case Nil
  then show ?case by simp
next
  case (Cons i ins)
  from run_Cons_inv[OF Cons.prems] obtain r rs' where
    "run clamp (self_new r) ins = Inr rs'" "rs = r # rs'" by blast
  with Cons.IH show ?case by simp
qed

lemma final_simps:
  "final s [] = s" "final s (r # rs) = final (self_new r) rs"
  by (simp_all add: final_def)

lemma states_simps:
  "states s [] = [s]" "states s (r # rs) = s # states (self_new r) rs"
  by (simp_all add: states_def)

lemma states_last: "states s rs ! length rs = final s rs"
  by (cases rs rule: rev_cases) (simp_all add: states_def final_def nth_append)

lemma run_append:
  "run clamp s (xs @ ys) =
     (case run clamp s xs of
        Inl e \<Rightarrow> Inl e
      | Inr rs \<Rightarrow> (case run clamp (final s rs) ys of Inl e \<Rightarrow> Inl e | Inr rs' \<Rightarrow> Inr (rs @ rs')))"
proof (induction xs arbitrary: s)
  case Nil
  show ?case by (simp add: final_simps split: sum.splits)
next
  case (Cons x xs)
  show ?case
  proof (cases "cycle clamp s x")
    case (Inl e)
    then show ?thesis by simp
  next
    case (Inr r)
    then show ?thesis
      by (simp add: Cons.IH final_simps split: sum.splits)
  qed
qed

lemma run_append_inv:
  assumes "run clamp s (xs @ ys) = Inr rs"
  shows "\<exists>ra rb. run clamp s xs = Inr ra \<and> run clamp (final s ra) ys = Inr rb \<and> rs = ra @ rb"
  using assms unfolding run_append by (auto split: sum.splits)

lemma run_nth:
  assumes "run clamp s ins = Inr rs" and "k < length rs"
  shows "cycle clamp (states s rs ! k) (ins ! k) = Inr (rs ! k)
       \<and> states s rs ! Suc k = self_new (rs ! k)"
  using assms
proof (induction ins arbitrary: s rs k)
  case Nil
  then show ?case by simp
next
  case (Cons i ins)
  from run_Cons_inv[OF Cons.prems(1)] obtain r rs' where
    c: "cycle clamp s i = Inr r" and r: "run clamp (self_new r) ins = Inr rs'" and rs: "rs = r # rs'"
    by (elim exE conjE)
  show ?case
  proof (cases k)
    case 0
    then show ?thesis by (simp add: rs states_simps c) (cases rs'; simp add: states_simps)
  next
    case (Suc j)
    with Cons.prems(2) rs have "j < length rs'" by simp
    from Cons.IH[OF r this] Suc show ?thesis by (simp add: rs states_simps)
  qed
qed

lemma run_invariant:
  assumes step: "\<And>s i r. I s \<Longrightarrow> cycle clamp s i = Inr r \<Longrightarrow> I (self_new r)"
    and "I s" and "run clamp s ins = Inr rs"
  shows "\<forall>s' \<in> set (states s rs). I s'"
  using assms(2,3)
proof (induction ins arbitrary: s rs)
  case Nil
  then show ?case by (simp add: states_simps)
next
  case (Cons i ins)
  from run_Cons_inv[OF Cons.prems(2)] obtain r rs' where
    c: "cycle clamp s i = Inr r" and r: "run clamp (self_new r) ins = Inr rs'" and rs: "rs = r # rs'"
    by (elim exE conjE)
  from Cons.IH[OF step[OF Cons.prems(1) c] r] Cons.prems(1) show ?case
    by (simp add: rs states_simps)
qed

lemma run_set:
  assumes "run clamp s ins = Inr rs" and "r \<in> set rs"
  shows "\<exists>s' i. i \<in> set ins \<and> cycle clamp s' i = Inr r"
proof -
  from assms(2) obtain k where k: "k < length rs" "rs ! k = r"
    by (auto simp: in_set_conv_nth)
  from run_nth[OF assms(1) k(1)] k(2) run_length[OF assms(1)] k(1)
  show ?thesis by (intro exI[of _ "states s rs ! k"] exI[of _ "ins ! k"]) simp
qed

lemma run_ccp:
  assumes "run clamp s ins = Inr rs"
  shows "ccp (final s rs) = ccp s \<and> CP (final s rs) = CP s"
  using assms
proof (induction ins arbitrary: s rs)
  case Nil
  then show ?case by (simp add: final_def)
next
  case (Cons i ins)
  from run_Cons_inv[OF Cons.prems(1)] obtain r rs' where
    c: "cycle clamp s i = Inr r" and r: "run clamp (self_new r) ins = Inr rs'" and rs: "rs = r # rs'"
    by (elim exE conjE)
  from Cons.IH[OF r] update_core[OF c[unfolded cycle_def]] show ?case
    by (simp add: rs final_simps)
qed

lemma run_frame:
  assumes "run clamp s ins = Inr rs" and "k \<le> length rs"
  shows "frame (states s rs ! k) = frame s + int k \<and> CP (states s rs ! k) = CP s"
  using assms(2)
proof (induction k)
  case 0
  show ?case by (simp add: states_def)
next
  case (Suc k)
  then have k: "k < length rs" by simp
  from run_nth[OF assms(1) k] have c: "cycle clamp (states s rs ! k) (ins ! k) = Inr (rs ! k)"
    and n: "states s rs ! Suc k = self_new (rs ! k)" by simp_all
  from update_core[OF c[unfolded cycle_def]] Suc.IH k show ?case
    by (simp add: n)
qed

lemma run_returns:
  assumes "STEER_MAX (ccp s) \<noteq> 0" and "\<forall>i \<in> set ins. wf_CS (in_CS i)"
  shows "\<exists>rs. run clamp s ins = Inr rs"
  using assms
proof (induction ins arbitrary: s)
  case Nil
  show ?case by simp
next
  case (Cons i ins)
  from Cons.prems have "wf_CS (in_CS i)" by simp
  from update_returns[where clamp = clamp and CC = "in_CC i" and P = "in_P i", OF Cons.prems(1) this] obtain r where
    r: "cycle clamp s i = Inr r" unfolding cycle_def by (elim exE)
  from update_core[OF r[unfolded cycle_def]] Cons.prems(1) have "STEER_MAX (ccp (self_new r)) \<noteq> 0"
    by simp
  from Cons.IH[OF this] Cons.prems(2) obtain rs where "run clamp (self_new r) ins = Inr rs"
    by auto
  with r show ?case by simp
qed

section \<open>The stock transition counter\<close>

lemma cycle_counter:
  assumes "cycle clamp s i = Inr r" and "0 \<le> CEFramesCounter s" and "CEFramesCounter s \<le> 20"
  shows "0 \<le> CEFramesCounter (self_new r) \<and> CEFramesCounter (self_new r) \<le> 20
       \<and> \<bar>CEFramesCounter (self_new r) - CEFramesCounter s\<bar> \<le> 1"
  using update_counter[OF assms(1)[unfolded cycle_def]] assms(2,3)
  by (simp split: if_splits)

lemma run_counter:
  assumes "run clamp s ins = Inr rs" and "0 \<le> CEFramesCounter s" and "CEFramesCounter s \<le> 20"
  shows "(\<forall>s' \<in> set (states s rs). 0 \<le> CEFramesCounter s' \<and> CEFramesCounter s' \<le> 20)
       \<and> (\<forall>k < length rs. \<bar>CEFramesCounter (states s rs ! Suc k) - CEFramesCounter (states s rs ! k)\<bar> \<le> 1)"
  using assms
proof (induction ins arbitrary: s rs)
  case Nil
  then show ?case by (simp add: states_def)
next
  case (Cons i ins)
  from run_Cons_inv[OF Cons.prems(1)] obtain r rs' where
    c: "cycle clamp s i = Inr r" and r: "run clamp (self_new r) ins = Inr rs'" and rs: "rs = r # rs'"
    by blast
  note st = cycle_counter[OF c Cons.prems(2,3)]
  from Cons.IH[OF r] st
  have ih: "\<forall>s' \<in> set (states (self_new r) rs'). 0 \<le> CEFramesCounter s' \<and> CEFramesCounter s' \<le> 20"
    and ih2: "\<forall>k < length rs'. \<bar>CEFramesCounter (states (self_new r) rs' ! Suc k)
                 - CEFramesCounter (states (self_new r) rs' ! k)\<bar> \<le> 1"
    by simp_all
  have e: "states s rs = s # states (self_new r) rs'"
    by (simp add: states_def rs)
  have 1: "\<forall>s' \<in> set (states s rs). 0 \<le> CEFramesCounter s' \<and> CEFramesCounter s' \<le> 20"
    using ih Cons.prems(2,3) by (simp add: e)
  have 2: "\<bar>CEFramesCounter (states s rs ! Suc k) - CEFramesCounter (states s rs ! k)\<bar> \<le> 1"
    if "k < length rs" for k
  proof (cases k)
    case 0
    then show ?thesis using st by (simp add: states_def rs)
  next
    case (Suc j)
    with that rs have "j < length rs'" by simp
    with ih2 Suc show ?thesis by (simp add: e)
  qed
  from 1 2 show ?case by blast
qed

text \<open>
  C3. Along every run of cycles from the constructed controller, the value stored under
  \<^verbatim>\<open>CEFramesCounter\<close> lies between 0 and 20 before the first cycle and after every
  cycle, and the values before and after a cycle differ by at most 1. The controller is
  the only writer of the key in the model.
\<close>

theorem C3_transition_counter:
  assumes "run clamp (init clamp cp limits) ins = Inr rs"
  shows "(\<forall>s \<in> set (states (init clamp cp limits) rs). 0 \<le> CEFramesCounter s \<and> CEFramesCounter s \<le> 20)
       \<and> (\<forall>k < length rs. \<bar>CEFramesCounter (states (init clamp cp limits) rs ! Suc k)
                              - CEFramesCounter (states (init clamp cp limits) rs ! k)\<bar> \<le> 1)"
  using run_counter[OF assms] by (simp add: init_def)

theorem C3_transition_counter_witness:
  "\<not> isl (run example_clamp (init example_clamp \<lparr>flags = {}\<rparr> example_limits) [blend_in, blend_in])
   \<and> map CEFramesCounter (states (init example_clamp \<lparr>flags = {}\<rparr> example_limits)
        (projr (run example_clamp (init example_clamp \<lparr>flags = {}\<rparr> example_limits) [blend_in, blend_in])))
       = [0, 1, 2]
   \<and> \<bar>CEFramesCounter (states (init example_clamp \<lparr>flags = {}\<rparr> example_limits)
        (projr (run example_clamp (init example_clamp \<lparr>flags = {}\<rparr> example_limits) [blend_in, blend_in])) ! Suc 1)
      - CEFramesCounter (states (init example_clamp \<lparr>flags = {}\<rparr> example_limits)
        (projr (run example_clamp (init example_clamp \<lparr>flags = {}\<rparr> example_limits) [blend_in, blend_in])) ! 1)\<bar> \<le> 1"
proof -
  let ?I = "init example_clamp \<lparr>flags = {}\<rparr> example_limits"
  let ?run = "run example_clamp ?I [blend_in, blend_in]"
  have n: "\<not> isl ?run"
    by (simp add: model_defs example_defs Let_def)
  have m: "map CEFramesCounter (states ?I (projr ?run)) = [0, 1, 2]"
    by (simp add: model_defs example_defs states_def Let_def)
  have l: "(1::nat) < length (projr ?run)"
    using run_length[OF not_isl_Inr[OF n]] by simp
  from C3_transition_counter[OF not_isl_Inr[OF n]] l
  have "\<bar>CEFramesCounter (states ?I (projr ?run) ! Suc 1) - CEFramesCounter (states ?I (projr ?run) ! 1)\<bar> \<le> 1"
    by blast
  with n m show ?thesis by (intro conjI)
qed

section \<open>Gen2: the acceleration command\<close>

lemma gen2_raw_steered:
  "gen2_raw_acc_output (steered self CC' CS') CC CS P = gen2_raw_acc_output self CC CS P"
  by (simp add: gen2_raw_acc_output_def steered_fields split: sum.splits)

lemma gen2_acc_output_steered:
  "gen2_acc_output clamp (steered self CC' CS') CS P raw = Inr (s', v)
   \<Longrightarrow> \<exists>s''. gen2_acc_output clamp self CS P raw = Inr (s'', v)"
  by (auto simp: gen2_acc_output_def steered_def Let_def split: if_splits sum.splits prod.splits)

text \<open>
  C4. In a Gen2 cycle that returns, \<^verbatim>\<open>CS.acc["ACCEL_CMD"]\<close> is overwritten with the
  computed acceleration command \<^verbatim>\<open>acc_output\<close> when experimental longitudinal
  control is enabled and long control is active, and the whole car state is left as it
  was in every other case.
\<close>

theorem C4_accel_write_back:
  assumes "GEN1 \<notin> flags (CP self)" and "update clamp self CC CS P = Inr r"
  shows "\<exists>acc_output. gen2_computed_accel clamp self CC CS P = Inr acc_output \<and>
           CS_new r = (if ExperimentalLongitudinalEnabled P \<and> longActive CC
                       then CS\<lparr>acc_msg := (acc_msg CS)(''ACCEL_CMD'' \<mapsto> acc_output)\<rparr>
                       else CS)"
proof -
  obtain s' CS' cmds where g: "gen2 clamp (steered self CC CS) CC CS P = Inr (s', CS', cmds)"
    and r: "CS_new r = CS'"
    using update_gen2[OF assms] by (elim exE conjE)
  obtain raw s1 a where 1: "gen2_raw_acc_output (steered self CC CS) CC CS P = Inr raw"
    and 2: "gen2_acc_output clamp (steered self CC CS) CS P raw = Inr (s1, a)"
    and 3: "CS' = gen2_write_back CC CS P a"
    using gen2_inv[OF g] by (elim exE conjE)
  obtain s2 where 4: "gen2_acc_output clamp self CS P raw = Inr (s2, a)"
    using gen2_acc_output_steered[OF 2] by (elim exE)
  have "gen2_computed_accel clamp self CC CS P = Inr a"
    using 1 4 by (simp add: gen2_computed_accel_def gen2_raw_steered)
  moreover have "CS_new r = (if ExperimentalLongitudinalEnabled P \<and> longActive CC
                       then CS\<lparr>acc_msg := (acc_msg CS)(''ACCEL_CMD'' \<mapsto> a)\<rparr>
                       else CS)"
    using r 3 by (simp add: gen2_write_back_def)
  ultimately show ?thesis by (intro exI[of _ a] conjI)
qed

theorem C4_accel_write_back_witness:
  "GEN1 \<notin> flags (CP gen2_init) \<and> \<not> isl (update example_clamp gen2_init long_CC idle_CS exp_P)
   \<and> acc_msg (CS_new (projr (update example_clamp gen2_init long_CC idle_CS exp_P))) ''ACCEL_CMD''
       = Some 2240"
proof -
  have f: "GEN1 \<notin> flags (CP gen2_init)" by (simp add: gen2_init_def init_def)
  have n: "\<not> isl (update example_clamp gen2_init long_CC idle_CS exp_P)"
    by (simp add: model_defs example_defs Let_def)
  have a: "gen2_computed_accel example_clamp gen2_init long_CC idle_CS exp_P = Inr 2240"
    by (simp add: gen2_computed_accel_def model_defs example_defs Let_def)
  have c: "ExperimentalLongitudinalEnabled exp_P \<and> longActive long_CC"
    by (simp add: example_defs)
  from C4_accel_write_back[OF f not_isl_Inr[OF n]] a c
  have "acc_msg (CS_new (projr (update example_clamp gen2_init long_CC idle_CS exp_P))) ''ACCEL_CMD''
       = Some 2240"
    by auto
  with f n show ?thesis by (intro conjI)
qed

text \<open>
  C5, amended. In a Gen2 cycle that returns, the raw acceleration output is the stock
  command \<^verbatim>\<open>CS.acc["ACCEL_CMD"]\<close> when a resume condition is requested, blended-ACC
  mode is enabled and \<^verbatim>\<open>CEFramesCounter\<close> is zero, and \<open>accel * 240 + 2000\<close>
  in every other case. Without the blended-ACC condition the statement fails: with blending
  off, a resume request at counter zero still yields \<open>accel * 240 + 2000\<close>.
\<close>

theorem C5_raw_acc_output:
  assumes "GEN1 \<notin> flags (CP self)" and "update clamp self CC CS P = Inr r"
  shows "\<exists>raw resuming. gen2_raw_acc_output self CC CS P = Inr raw \<and> is_resuming CC CS = Inr resuming \<and>
           (if resuming \<and> BlendedACC P \<and> CEFramesCounter self = 0
            then acc_msg CS ''ACCEL_CMD'' = Some raw
            else raw = accel (actuators CC) * 240 + 2000)"
proof -
  obtain s' CS' cmds where g: "gen2 clamp (steered self CC CS) CC CS P = Inr (s', CS', cmds)"
    using update_gen2[OF assms] by (elim exE conjE)
  obtain raw where "gen2_raw_acc_output (steered self CC CS) CC CS P = Inr raw"
    using gen2_inv[OF g] by (elim exE conjE)
  then have raw: "gen2_raw_acc_output self CC CS P = Inr raw"
    by (simp add: gen2_raw_steered)
  then show ?thesis
    by (auto simp: gen2_raw_acc_output_def lookup_def split: sum.splits if_splits option.splits)
qed

theorem C5_raw_acc_output_witness:
  "GEN1 \<notin> flags (CP gen2_init) \<and> \<not> isl (update example_clamp gen2_init resume_accel_CC idle_CS blend_P)
   \<and> gen2_raw_acc_output gen2_init resume_accel_CC idle_CS blend_P = Inr 2000
   \<and> gen2_raw_acc_output gen2_init long_CC idle_CS blend_P = Inr 2240"
proof -
  have f: "GEN1 \<notin> flags (CP gen2_init)" by (simp add: gen2_init_def init_def)
  have n: "\<not> isl (update example_clamp gen2_init resume_accel_CC idle_CS blend_P)"
    by (simp add: model_defs example_defs Let_def)
  have n2: "\<not> isl (update example_clamp gen2_init long_CC idle_CS blend_P)"
    by (simp add: model_defs example_defs Let_def)
  have i: "is_resuming resume_accel_CC idle_CS = Inr True" "is_resuming long_CC idle_CS = Inr False"
    "BlendedACC blend_P" "CEFramesCounter gen2_init = 0"
    "acc_msg idle_CS ''ACCEL_CMD'' = Some 2000" "accel (actuators long_CC) = 1"
    by (simp_all add: is_resuming_def lookup_def example_defs init_def)
  from C5_raw_acc_output[OF f not_isl_Inr[OF n]] i
  have 1: "gen2_raw_acc_output gen2_init resume_accel_CC idle_CS blend_P = Inr 2000"
    by auto
  from C5_raw_acc_output[OF f not_isl_Inr[OF n2]] i
  have 2: "gen2_raw_acc_output gen2_init long_CC idle_CS blend_P = Inr 2240"
    by auto
  from f n 1 2 show ?thesis by (intro conjI)
qed

theorem C5_raw_acc_output_counterexample:
  "GEN1 \<notin> flags (CP gen2_init) \<and> \<not> isl (update example_clamp gen2_init resume_accel_CC idle_CS idle_P)
   \<and> is_resuming resume_accel_CC idle_CS = Inr True \<and> CEFramesCounter gen2_init = 0
   \<and> lookup (acc_msg idle_CS) ''ACCEL_CMD'' = Inr 2000
   \<and> gen2_raw_acc_output gen2_init resume_accel_CC idle_CS idle_P = Inr 2240"
  by (simp add: model_defs example_defs Let_def)

section \<open>Gen2: hold and resume\<close>

lemma stopped_for_0: "stopped_for 0 = gen2_init"
  by (simp add: stopped_for_def example_defs init_def Timer_new_def)

lemma cycle_stopped:
  "\<exists>r. cycle example_clamp (stopped_for n) stopped_in = Inr r \<and> self_new r = stopped_for (Suc n)"
  by (simp add: stopped_for_def model_defs example_defs Let_def add_divide_distrib)

lemma run_stopped:
  "\<exists>rs. run example_clamp (stopped_for n) (replicate k stopped_in) = Inr rs
        \<and> final (stopped_for n) rs = stopped_for (n + k)"
proof (induction k arbitrary: n)
  case 0
  show ?case by (simp add: final_simps)
next
  case (Suc k)
  obtain r where r: "cycle example_clamp (stopped_for n) stopped_in = Inr r"
    and s: "self_new r = stopped_for (Suc n)"
    using cycle_stopped[of n] by (elim exE conjE)
  obtain rs where rs: "run example_clamp (stopped_for (Suc n)) (replicate k stopped_in) = Inr rs"
    and f: "final (stopped_for (Suc n)) rs = stopped_for (Suc n + k)"
    using Suc.IH[of "Suc n"] by (elim exE conjE)
  show ?case
    by (rule exI[of _ "r # rs"]) (simp add: r s rs f final_simps)
qed

lemma resume_then_hold_tail: "run example_clamp (stopped_for 50) [stopped_resume_in, stopped_in, stopped_in] = Inr rs
   \<Longrightarrow> hold_resume_flags (can_sends (last rs)) = [(True, True)]"
  by (auto simp add: stopped_for_def model_defs example_defs Let_def)

lemma resume_then_hold_tail_returns: "\<not> isl (run example_clamp (stopped_for 50) [stopped_resume_in, stopped_in, stopped_in])"
  by (simp add: stopped_for_def model_defs example_defs Let_def)

lemma is_resuming_write_back:
  "is_resuming CC (gen2_write_back CC' CS P a) = is_resuming CC CS"
  by (simp add: is_resuming_def gen2_write_back_def lookup_def)

lemma out_write_back: "out (gen2_write_back CC' CS P a) = out CS"
  by (simp add: gen2_write_back_def)

lemma gen2_hold_resume_tick:
  assumes "gen2_hold_resume self CC CS = Inr (s', cmds)" and "timer_interval (timer_ticks self) 2"
  shows "\<exists>h rs. cmds = [AccCmd (acc_msg CS) h rs]
           \<and> (h \<longrightarrow> standstill (out CS) \<and> \<not> timer_active (hold_delay self)
                     \<and> is_resuming CC CS = Inr False \<and> timer_active (hold_timer self))
           \<and> (rs \<longrightarrow> timer_active (resume_timer self) \<or> is_resuming CC CS = Inr True)"
  using assms
  by (auto simp: gen2_hold_resume_def Let_def split: if_splits sum.splits)

text \<open>
  C1, amended. On a 50 Hz dispatch tick of a Gen2 cycle that returns, exactly one ACC command
  frame is emitted, and its hold and resume flags are both true only if the resume timer was
  still active when the cycle began and no resume condition holds in the cycle. So they are
  never both true on a tick on which a resume condition holds, nor on one that starts with the
  resume timer lapsed. Both may be false. They can both be true: at standstill, after a tick
  with a resume condition, the resume timer stays active for half a second, and a tick without
  resume condition in that window sets hold from the hold timer.
\<close>

theorem C1_hold_resume:
  assumes "GEN1 \<notin> flags (CP self)" and "update clamp self CC CS P = Inr r"
    and "timer_interval (timer_ticks self) 2"
  shows "\<exists>h rs. hold_resume_flags (can_sends r) = [(h, rs)]
           \<and> (h \<and> rs \<longrightarrow> timer_active (resume_timer self) \<and> is_resuming CC CS = Inr False)"
proof -
  obtain s' CS' cmds where g: "gen2 clamp (steered self CC CS) CC CS P = Inr (s', CS', cmds)"
    and r: "can_sends r = cmds @ [SteeringControl (frame s') (fst (steer_part self CC CS)) (cam_lkas CS')]"
    using update_gen2[OF assms(1,2)] by (elim exE conjE)
  obtain raw s1 a where 1: "gen2_acc_output clamp (steered self CC CS) CS P raw = Inr (s1, a)"
    and 2: "CS' = gen2_write_back CC CS P a"
    and 3: "gen2_hold_resume s1 CC CS' = Inr (s', cmds)"
    using gen2_inv[OF g] by (elim exE conjE)
  from gen2_acc_output_inv[OF 1]
  have e: "timer_ticks s1 = timer_ticks self" "hold_delay s1 = hold_delay self"
    "resume_timer s1 = resume_timer self" "hold_timer s1 = hold_timer self"
    by (simp_all add: same_core_def steered_fields)
  from assms(3) e have t: "timer_interval (timer_ticks s1) 2" by simp
  obtain h rs where c: "cmds = [AccCmd (acc_msg CS') h rs]"
    and h: "h \<longrightarrow> is_resuming CC CS' = Inr False"
    and rs: "rs \<longrightarrow> timer_active (resume_timer s1) \<or> is_resuming CC CS' = Inr True"
    using gen2_hold_resume_tick[OF 3 t] by (elim exE conjE) blast
  have "hold_resume_flags (can_sends r) = [(h, rs)]"
    by (simp add: r c)
  moreover have "h \<and> rs \<longrightarrow> timer_active (resume_timer self) \<and> is_resuming CC CS = Inr False"
    using h rs by (auto simp: 2 e is_resuming_write_back)
  ultimately show ?thesis by (intro exI[of _ h] exI[of _ rs] conjI)
qed

theorem C1_hold_resume_witness:
  "final gen2_init (projr (run example_clamp gen2_init (replicate 50 stopped_in))) = stopped_for 50
   \<and> GEN1 \<notin> flags (CP (stopped_for 50))
   \<and> \<not> isl (update example_clamp (stopped_for 50) idle_CC idle_CS idle_P)
   \<and> timer_interval (timer_ticks (stopped_for 50)) 2
   \<and> hold_resume_flags (can_sends (projr (update example_clamp (stopped_for 50) idle_CC idle_CS idle_P)))
       = [(False, False)]"
proof -
  have r: "final gen2_init (projr (run example_clamp gen2_init (replicate 50 stopped_in))) = stopped_for 50"
    using run_stopped[of 0 50] by (auto simp: stopped_for_0)
  have f: "GEN1 \<notin> flags (CP (stopped_for 50))"
    by (simp add: stopped_for_def gen2_init_def init_def)
  have n: "\<not> isl (update example_clamp (stopped_for 50) idle_CC idle_CS idle_P)"
    by (simp add: stopped_for_def model_defs example_defs Let_def)
  have t: "timer_interval (timer_ticks (stopped_for 50)) 2"
    by (simp add: timer_interval_def stopped_for_def)
  have v: "\<not> timer_active (resume_timer (stopped_for 50))"
    "\<not> standstill (out idle_CS)"
    by (simp_all add: timer_active_def stopped_for_def idle_CS_def)
  have m: "(False, False) \<in> set (hold_resume_flags (can_sends (projr (update example_clamp (stopped_for 50) idle_CC idle_CS idle_P))))"
    by (simp add: stopped_for_def model_defs example_defs Let_def)
  from C1_hold_resume[OF f not_isl_Inr[OF n] t] m
  have "hold_resume_flags (can_sends (projr (update example_clamp (stopped_for 50) idle_CC idle_CS idle_P)))
       = [(False, False)]"
    by auto
  with r f n t show ?thesis by (intro conjI)
qed

theorem C1_hold_resume_counterexample:
  "\<not> isl (run example_clamp gen2_init resume_then_hold)
   \<and> hold_resume_flags (can_sends (last (projr (run example_clamp gen2_init resume_then_hold))))
       = [(True, True)]"
proof -
  obtain rs where rs: "run example_clamp gen2_init (replicate 50 stopped_in) = Inr rs"
    and f: "final gen2_init rs = stopped_for 50"
    using run_stopped[of 0 50] by (simp add: stopped_for_0) (elim exE conjE)
  obtain rs' where t: "run example_clamp (stopped_for 50) [stopped_resume_in, stopped_in, stopped_in] = Inr rs'"
    using not_isl_Inr[OF resume_then_hold_tail_returns] by blast
  from run_length[OF t] have ne: "rs' \<noteq> []" by auto
  have "run example_clamp gen2_init resume_then_hold = Inr (rs @ rs')"
    unfolding resume_then_hold_def run_append by (simp only: rs f t sum.case)
  with resume_then_hold_tail[OF t] ne show ?thesis by simp
qed

section \<open>Gen1: the radar path\<close>

lemma steer_part_with_accel: "steer_part self (with_accel CC a) CS = steer_part self CC CS"
  by (simp add: steer_part_def with_accel_def Let_def)

lemma gen1_accel_not_blended:
  "\<not> BlendedACC P \<Longrightarrow> gen1_accel clamp self CC CS P = Inr (self, CS)"
  by (simp add: gen1_accel_def Let_def)

lemma gen1_with_accel:
  "\<not> BlendedACC P \<Longrightarrow> gen1 clamp self (with_accel CC a) CS P = gen1 clamp self CC CS P"
  by (simp add: gen1_def gen1_radar_def gen1_accel_not_blended gen1_buttons_def gen1_alert_def
      with_accel_def Let_def)

lemma update_with_accel:
  assumes "GEN1 \<in> flags (CP self)" and "\<not> BlendedACC P"
    and "update clamp self CC CS P = Inr r"
  shows "update clamp self (with_accel CC a) CS P
           = Inr (r\<lparr>new_actuators := (new_actuators r)\<lparr>accel := a\<rparr>\<rparr>)"
proof -
  have a: "actuators (with_accel CC a) = (actuators CC)\<lparr>accel := a\<rparr>"
    by (simp add: with_accel_def)
  show ?thesis
    using assms
    by (auto simp: update_def steer_part_with_accel gen1_with_accel a Let_def
        split: prod.splits sum.splits if_splits)
qed

lemma gen1_radar_of_update:
  assumes "GEN1 \<in> flags (CP self)" and "update clamp self CC CS P = Inr r"
  shows "\<exists>s' radar. gen1_radar clamp
             ((steered self CC CS)\<lparr>brake_counter := fst (gen1_buttons (steered self CC CS) CC CS)\<rparr>)
             CC CS P = Inr (s', CS_new r, radar)
           \<and> self_new r = tick_all (s'\<lparr>frame := frame s' + 1\<rparr>)
           \<and> can_sends r = snd (gen1_buttons (steered self CC CS) CC CS)
                 @ gen1_alert (steered self CC CS) CC CS @ radar
                 @ [SteeringControl (frame s') (fst (steer_part self CC CS)) (cam_lkas (CS_new r))]"
proof -
  obtain s' CS' cmds where g: "gen1 clamp (steered self CC CS) CC CS P = Inr (s', CS', cmds)"
    and r: "self_new r = tick_all (s'\<lparr>frame := frame s' + 1\<rparr>)" "CS_new r = CS'"
      "can_sends r = cmds @ [SteeringControl (frame s') (fst (steer_part self CC CS)) (cam_lkas CS')]"
    using update_gen1[OF assms] by (elim exE conjE)
  obtain radar where rd: "gen1_radar clamp ((steered self CC CS)\<lparr>brake_counter := fst (gen1_buttons (steered self CC CS) CC CS)\<rparr>) CC CS P
                    = Inr (s', CS', radar)"
    and c: "cmds = snd (gen1_buttons (steered self CC CS) CC CS) @ gen1_alert (steered self CC CS) CC CS @ radar"
    using gen1_inv[OF g] by (elim exE conjE)
  show ?thesis
    using rd r c by (intro exI[of _ s'] exI[of _ radar]) simp
qed

text \<open>
  C9. In a Gen1 cycle with the radar path that returns, every radar command frame carries
  \<open>hold = (standstill \<and> hold_timer.active())\<close>, with the hold timer read as the cycle
  finds it; the frame is emitted on even frame counts; and when the vehicle is not at
  standstill the hold timer is reset (and then advanced by the tick that ends the cycle), so
  hold is false. Neither the hold-delay timer nor a resume condition enters.
\<close>

theorem C9_radar_hold:
  assumes "GEN1 \<in> flags (CP self)" and "RADAR_INTERCEPTOR \<in> flags (CP self)"
    and "update clamp self CC CS P = Inr r"
  shows "(\<forall>f la cs h. RadarCommand f la cs h \<in> set (can_sends r) \<longrightarrow>
            h = (standstill (out CS) \<and> timer_active (hold_timer self)))
       \<and> (frame self mod 2 = 0 \<longrightarrow>
            RadarCommand (frame self) (longActive CC) (CS_new r)
              (standstill (out CS) \<and> timer_active (hold_timer self)) \<in> set (can_sends r))
       \<and> (\<not> standstill (out CS) \<longrightarrow>
            hold_timer (self_new r) = timer_tick (timer_reset (hold_timer self)))"
proof -
  let ?s = "(steered self CC CS)\<lparr>brake_counter := fst (gen1_buttons (steered self CC CS) CC CS)\<rparr>"
  obtain s' radar where rd: "gen1_radar clamp ?s CC CS P = Inr (s', CS_new r, radar)"
    and r: "self_new r = tick_all (s'\<lparr>frame := frame s' + 1\<rparr>)"
      "can_sends r = snd (gen1_buttons (steered self CC CS) CC CS)
                 @ gen1_alert (steered self CC CS) CC CS @ radar
                 @ [SteeringControl (frame s') (fst (steer_part self CC CS)) (cam_lkas (CS_new r))]"
    using gen1_radar_of_update[OF assms(1,3)] by (elim exE conjE)
  have fl: "RADAR_INTERCEPTOR \<in> flags (CP ?s)"
    using assms(2) by (simp add: steered_def)
  from gen1_radar_inv[OF rd] fl
  have rad: "radar = (if frame self mod 2 = 0
                     then [RadarCommand (frame self) (longActive CC) (CS_new r)
                             (standstill (out CS) \<and> timer_active (hold_timer self))]
                     else [])"
    and ht: "\<not> standstill (out CS) \<longrightarrow> hold_timer s' = timer_reset (hold_timer self)"
    by (simp_all add: steered_def)
  have nb: "\<forall>f la cs h. RadarCommand f la cs h \<notin> set (snd (gen1_buttons (steered self CC CS) CC CS) @ gen1_alert (steered self CC CS) CC CS)"
    by (simp add: gen1_buttons_def gen1_alert_def Let_def)
  show ?thesis
    using rad ht nb r by (auto simp: tick_all_def split: if_splits)
qed

theorem C9_radar_hold_witness:
  "GEN1 \<in> flags (CP gen1_init) \<and> RADAR_INTERCEPTOR \<in> flags (CP gen1_init)
   \<and> \<not> isl (update example_clamp gen1_init idle_CC stopped_CS idle_P)
   \<and> RadarCommand 0 False stopped_CS True
        \<in> set (can_sends (projr (update example_clamp gen1_init idle_CC stopped_CS idle_P)))"
proof -
  have f: "GEN1 \<in> flags (CP gen1_init)" "RADAR_INTERCEPTOR \<in> flags (CP gen1_init)"
    by (simp_all add: gen1_init_def init_def)
  have n: "\<not> isl (update example_clamp gen1_init idle_CC stopped_CS idle_P)"
    by (simp add: model_defs example_defs Let_def)
  have v: "frame gen1_init = 0" "longActive idle_CC = False" "standstill (out stopped_CS)"
    "timer_active (hold_timer gen1_init)"
    by (simp_all add: example_defs init_def Timer_new_def timer_active_def)
  have c: "CS_new (projr (update example_clamp gen1_init idle_CC stopped_CS idle_P)) = stopped_CS"
    by (simp add: model_defs example_defs Let_def)
  from C9_radar_hold[OF f not_isl_Inr[OF n]] v c
  have "RadarCommand 0 False stopped_CS True
        \<in> set (can_sends (projr (update example_clamp gen1_init idle_CC stopped_CS idle_P)))"
    by simp
  with f n show ?thesis by (intro conjI)
qed

text \<open>
  C10. In a Gen1 cycle that returns, \<^verbatim>\<open>CS.crz_info["ACCEL_CMD"]\<close> differs from its
  value before the cycle only if long control is active and blended-ACC mode is enabled; in
  every other case the car state is left as it was. Without blended-ACC mode the
  acceleration command reaches nothing the encoder sees: the controller, the car state and
  the frames of the cycle are the same for every value of \<^verbatim>\<open>CC.actuators.accel\<close>.
\<close>

theorem C10_crz_info_write:
  assumes "GEN1 \<in> flags (CP self)" and "update clamp self CC CS P = Inr r"
  shows "(crz_info (CS_new r) \<noteq> crz_info CS \<longrightarrow> longActive CC \<and> BlendedACC P)
       \<and> (\<not> (longActive CC \<and> BlendedACC P) \<longrightarrow> CS_new r = CS)
       \<and> (\<not> BlendedACC P \<longrightarrow>
            (\<forall>a. \<exists>r'. update clamp self (with_accel CC a) CS P = Inr r'
                  \<and> self_new r' = self_new r \<and> CS_new r' = CS_new r \<and> can_sends r' = can_sends r))"
proof -
  let ?s = "(steered self CC CS)\<lparr>brake_counter := fst (gen1_buttons (steered self CC CS) CC CS)\<rparr>"
  obtain s' radar where rd: "gen1_radar clamp ?s CC CS P = Inr (s', CS_new r, radar)"
    using gen1_radar_of_update[OF assms] by (elim exE conjE)
  from gen1_radar_inv[OF rd] have 1: "\<not> (longActive CC \<and> BlendedACC P) \<longrightarrow> CS_new r = CS"
    by simp
  have 2: "\<not> BlendedACC P \<longrightarrow>
            (\<forall>a. \<exists>r'. update clamp self (with_accel CC a) CS P = Inr r'
                  \<and> self_new r' = self_new r \<and> CS_new r' = CS_new r \<and> can_sends r' = can_sends r)"
    using update_with_accel[OF assms(1) _ assms(2)] by simp
  from 1 2 show ?thesis by auto
qed

theorem C10_crz_info_write_witness:
  "GEN1 \<in> flags (CP gen1_init)
   \<and> \<not> isl (update example_clamp gen1_init long_CC idle_CS idle_P)
   \<and> CS_new (projr (update example_clamp gen1_init long_CC idle_CS idle_P)) = idle_CS
   \<and> can_sends (projr (update example_clamp gen1_init (with_accel long_CC 5) idle_CS idle_P))
       = can_sends (projr (update example_clamp gen1_init long_CC idle_CS idle_P))"
proof -
  have f: "GEN1 \<in> flags (CP gen1_init)"
    by (simp add: gen1_init_def init_def)
  have n: "\<not> isl (update example_clamp gen1_init long_CC idle_CS idle_P)"
    by (simp add: model_defs example_defs Let_def)
  have b: "\<not> BlendedACC idle_P" by (simp add: idle_P_def)
  note c = C10_crz_info_write[OF f not_isl_Inr[OF n]]
  from c b have 1: "CS_new (projr (update example_clamp gen1_init long_CC idle_CS idle_P)) = idle_CS"
    by simp
  from c b obtain r' where "update example_clamp gen1_init (with_accel long_CC 5) idle_CS idle_P = Inr r'"
    and "can_sends r' = can_sends (projr (update example_clamp gen1_init long_CC idle_CS idle_P))"
    by blast
  then have 2: "can_sends (projr (update example_clamp gen1_init (with_accel long_CC 5) idle_CS idle_P))
       = can_sends (projr (update example_clamp gen1_init long_CC idle_CS idle_P))"
    by simp
  from f n 1 2 show ?thesis by (intro conjI)
qed

section \<open>Steering\<close>

lemma py_round_of_int: "py_round (of_int n) = n"
  by (simp add: py_round_def)

lemma clip_between: "lo \<le> hi \<Longrightarrow> lo \<le> clip v lo hi \<and> clip v lo hi \<le> hi"
  by (simp add: clip_def)

lemma clip_abs: "lo \<le> hi \<Longrightarrow> \<bar>v\<bar> \<le> m \<Longrightarrow> - m \<le> hi \<Longrightarrow> lo \<le> m \<Longrightarrow> \<bar>clip v lo hi\<bar> \<le> m"
  by (auto simp: clip_def max_def min_def abs_le_iff)

lemma steer_limiter_rate:
  assumes "0 \<le> rate"
  shows "\<bar>steer_limiter mx rate thr fac new_steer steer_last driver_torque - steer_last\<bar> \<le> rate"
proof -
  have "steer_last - rate \<le> steer_last + rate" using assms by simp
  then have "steer_last - rate \<le> steer_limiter mx rate thr fac new_steer steer_last driver_torque
      \<and> steer_limiter mx rate thr fac new_steer steer_last driver_torque \<le> steer_last + rate"
    unfolding steer_limiter_def Let_def by (rule clip_between)
  then show ?thesis by (simp add: abs_le_iff)
qed

lemma steer_limiter_magnitude:
  assumes "0 \<le> mx" and "0 \<le> rate" and "\<bar>steer_last\<bar> \<le> mx"
  shows "\<bar>steer_limiter mx rate thr fac new_steer steer_last driver_torque\<bar> \<le> mx"
proof -
  define allowed where "allowed = (if ((new_steer > 0 \<and> driver_torque < 0) \<or> (new_steer < 0 \<and> driver_torque > 0)) \<and> \<bar>driver_torque\<bar> > thr
                     then max 0 (min mx (mx - fac * (\<bar>driver_torque\<bar> - thr)))
                     else mx)"
  have a: "0 \<le> allowed" "allowed \<le> mx"
    using assms(1) by (auto simp: allowed_def)
  define limited where "limited = clip new_steer (- allowed) allowed"
  have l: "\<bar>limited\<bar> \<le> mx"
    using a clip_between[of "- allowed" allowed new_steer] by (simp add: limited_def abs_le_iff)
  have e: "steer_limiter mx rate thr fac new_steer steer_last driver_torque
             = clip limited (steer_last - rate) (steer_last + rate)"
    by (simp add: steer_limiter_def Let_def limited_def allowed_def)
  show ?thesis
    unfolding e using l assms by (intro clip_abs) (auto simp: abs_le_iff)
qed

lemma steer_part_inactive: "\<not> latActive CC \<Longrightarrow> steer_part self CC CS = (0, 0)"
  by (simp add: steer_part_def)

lemma steer_part_bounds:
  assumes "0 \<le> STEER_MAX (ccp self)" "0 \<le> STEER_DELTA (ccp self)"
    "0 \<le> TI_STEER_MAX (ccp self)" "0 \<le> TI_STEER_DELTA (ccp self)"
    "\<bar>apply_steer_last self\<bar> \<le> STEER_MAX (ccp self)"
    "\<bar>ti_apply_steer_last self\<bar> \<le> TI_STEER_MAX (ccp self)"
  shows "\<bar>fst (steer_part self CC CS)\<bar> \<le> STEER_MAX (ccp self)"
    and "\<bar>snd (steer_part self CC CS)\<bar> \<le> TI_STEER_MAX (ccp self)"
    and "latActive CC \<Longrightarrow> \<bar>fst (steer_part self CC CS) - apply_steer_last self\<bar> \<le> STEER_DELTA (ccp self)"
    and "latActive CC \<Longrightarrow> TORQUE_INTERCEPTOR \<in> flags (CP self) \<Longrightarrow> ti_lkas_allowed CS
           \<Longrightarrow> \<bar>snd (steer_part self CC CS) - ti_apply_steer_last self\<bar> \<le> TI_STEER_DELTA (ccp self)"
  using assms
  by (simp_all add: steer_part_def Let_def apply_driver_steer_torque_limits_def
      apply_ti_steer_torque_limits_def steer_limiter_rate steer_limiter_magnitude)

lemma cycle_steer_bounded:
  assumes "0 \<le> STEER_MAX limits" "0 \<le> STEER_DELTA limits"
    "0 \<le> TI_STEER_MAX limits" "0 \<le> TI_STEER_DELTA limits"
    and "steer_bounded cp limits s" and "cycle clamp s i = Inr r"
  shows "steer_bounded cp limits (self_new r)"
proof -
  note u = update_core[OF assms(6)[unfolded cycle_def]]
  from assms(5) have e: "CP s = cp" "ccp s = limits"
    and b: "\<bar>apply_steer_last s\<bar> \<le> STEER_MAX (ccp s)" "\<bar>ti_apply_steer_last s\<bar> \<le> TI_STEER_MAX (ccp s)"
    by (simp_all add: steer_bounded_def)
  from steer_part_bounds(1,2)[OF _ _ _ _ b, of "in_CC i" "in_CS i"] assms(1-4) u e
  show ?thesis by (simp add: steer_bounded_def)
qed

text \<open>
  C2. With non-negative maximum magnitudes and maximum rates of change configured, in every
  cycle of a run from the constructed controller in which lateral control is active, the
  applied steer differs from the previous applied steer by at most the maximum rate and its
  magnitude is at most the maximum magnitude; the same holds of the auxiliary applied steer
  on its own parameters when the torque interceptor is fitted and allowed in the cycle. The
  applied steer of a cycle is the previous applied steer of the next.
\<close>

theorem C2_steer_limits:
  assumes "0 \<le> STEER_MAX limits" "0 \<le> STEER_DELTA limits"
    "0 \<le> TI_STEER_MAX limits" "0 \<le> TI_STEER_DELTA limits"
    and "run clamp (init clamp cp limits) ins = Inr rs" and "k < length rs"
    and "latActive (in_CC (ins ! k))"
  shows "\<bar>steerOutputCan (new_actuators (rs ! k))
            - apply_steer_last (states (init clamp cp limits) rs ! k)\<bar> \<le> STEER_DELTA limits
       \<and> \<bar>steerOutputCan (new_actuators (rs ! k))\<bar> \<le> STEER_MAX limits
       \<and> apply_steer_last (states (init clamp cp limits) rs ! Suc k)
            = steerOutputCan (new_actuators (rs ! k))
       \<and> (TORQUE_INTERCEPTOR \<in> flags cp \<and> ti_lkas_allowed (in_CS (ins ! k)) \<longrightarrow>
             \<bar>ti_apply_steer_last (states (init clamp cp limits) rs ! Suc k)
                - ti_apply_steer_last (states (init clamp cp limits) rs ! k)\<bar> \<le> TI_STEER_DELTA limits
           \<and> \<bar>ti_apply_steer_last (states (init clamp cp limits) rs ! Suc k)\<bar> \<le> TI_STEER_MAX limits)"
proof -
  let ?I = "init clamp cp limits"
  let ?s = "states ?I rs ! k"
  have i0: "steer_bounded cp limits ?I"
    using assms(1,3) by (simp add: steer_bounded_def init_def)
  have "\<forall>s' \<in> set (states ?I rs). steer_bounded cp limits s'"
    by (rule run_invariant[where I = "steer_bounded cp limits", OF _ i0 assms(5)])
      (rule cycle_steer_bounded[OF assms(1-4)])
  moreover have "?s \<in> set (states ?I rs)"
    using assms(6) by (intro nth_mem) (simp add: states_def)
  ultimately have sb: "steer_bounded cp limits ?s" by (rule bspec)
  then have e: "CP ?s = cp" "ccp ?s = limits"
    and b: "\<bar>apply_steer_last ?s\<bar> \<le> STEER_MAX (ccp ?s)" "\<bar>ti_apply_steer_last ?s\<bar> \<le> TI_STEER_MAX (ccp ?s)"
    by (simp_all add: steer_bounded_def)
  from run_nth[OF assms(5,6)] have c: "cycle clamp ?s (ins ! k) = Inr (rs ! k)"
    and n: "states ?I rs ! Suc k = self_new (rs ! k)" by simp_all
  note u = update_core[OF c[unfolded cycle_def]]
  have p: "0 \<le> STEER_MAX (ccp ?s)" "0 \<le> STEER_DELTA (ccp ?s)"
    "0 \<le> TI_STEER_MAX (ccp ?s)" "0 \<le> TI_STEER_DELTA (ccp ?s)"
    using assms(1-4) e by simp_all
  note sp = steer_part_bounds[OF p b, of "in_CC (ins ! k)" "in_CS (ins ! k)"]
  show ?thesis
    using sp(1) sp(2) sp(3)[OF assms(7)] sp(4)[OF assms(7)] u e n by simp
qed

theorem C2_steer_limits_witness:
  "0 \<le> STEER_MAX example_limits \<and> 0 \<le> STEER_DELTA example_limits
   \<and> 0 \<le> TI_STEER_MAX example_limits \<and> 0 \<le> TI_STEER_DELTA example_limits
   \<and> \<not> isl (run example_clamp (init example_clamp ti_CP example_limits) [steer_in, steer_in])
   \<and> (1::nat) < length (projr (run example_clamp (init example_clamp ti_CP example_limits) [steer_in, steer_in]))
   \<and> latActive (in_CC ([steer_in, steer_in] ! 1))
   \<and> map (\<lambda>r. steerOutputCan (new_actuators r))
        (projr (run example_clamp (init example_clamp ti_CP example_limits) [steer_in, steer_in])) = [10, 20]
   \<and> \<bar>steerOutputCan (new_actuators
          (projr (run example_clamp (init example_clamp ti_CP example_limits) [steer_in, steer_in]) ! 1))\<bar>
        \<le> STEER_MAX example_limits"
proof -
  let ?run = "run example_clamp (init example_clamp ti_CP example_limits) [steer_in, steer_in]"
  have p: "0 \<le> STEER_MAX example_limits" "0 \<le> STEER_DELTA example_limits"
    "0 \<le> TI_STEER_MAX example_limits" "0 \<le> TI_STEER_DELTA example_limits"
    by (simp_all add: example_limits_def)
  have n: "\<not> isl ?run"
    by (simp add: model_defs example_defs Let_def py_round_of_int[of 800, simplified] py_round_of_int[of 600, simplified])
  have m: "map (\<lambda>r. steerOutputCan (new_actuators r)) (projr ?run) = [10, 20]"
    by (simp add: model_defs example_defs Let_def py_round_of_int[of 800, simplified] py_round_of_int[of 600, simplified])
  have l: "(1::nat) < length (projr ?run)"
    using run_length[OF not_isl_Inr[OF n]] by simp
  have a: "latActive (in_CC ([steer_in, steer_in] ! 1))"
    by (simp add: example_defs)
  from C2_steer_limits[OF p not_isl_Inr[OF n] l a]
  have "\<bar>steerOutputCan (new_actuators (projr ?run ! 1))\<bar> \<le> STEER_MAX example_limits"
    by simp
  with p n l a m show ?thesis by (intro conjI)
qed

lemma update_steering_frame:
  assumes "update clamp self CC CS P = Inr r"
  shows "\<exists>cmds f m. can_sends r = cmds @ [SteeringControl f (fst (steer_part self CC CS)) m]"
proof (cases "GEN1 \<in> flags (CP self)")
  case True
  from update_gen1[OF True assms] show ?thesis by blast
next
  case False
  from update_gen2[OF False assms] show ?thesis by blast
qed

lemma cycle_inactive:
  assumes "cycle clamp s i = Inr r" and "\<not> latActive (in_CC i)"
  shows "steerOutputCan (new_actuators r) = 0 \<and> apply_steer_last (self_new r) = 0
       \<and> ti_apply_steer_last (self_new r) = 0
       \<and> (\<exists>cmds f m. can_sends r = cmds @ [SteeringControl f 0 m])"
  using update_core[OF assms(1)[unfolded cycle_def]] update_steering_frame[OF assms(1)[unfolded cycle_def]]
    steer_part_inactive[OF assms(2), of s "in_CS i"]
  by simp

text \<open>
  C8. Along a run of cycles in all of which lateral control is inactive, every cycle applies
  steer zero (in the actuator echo and in the steering frame) and stores zero as the previous
  standard and auxiliary applied steer; and the first cycle with lateral control active after
  such a run limits its steer from the baseline zero.
\<close>

theorem C8_lat_inactive_zero:
  assumes "run clamp s ins = Inr rs" and "\<forall>i \<in> set ins. \<not> latActive (in_CC i)"
  shows "(\<forall>r \<in> set rs. steerOutputCan (new_actuators r) = 0
                      \<and> (\<exists>cmds f m. can_sends r = cmds @ [SteeringControl f 0 m])
                      \<and> apply_steer_last (self_new r) = 0 \<and> ti_apply_steer_last (self_new r) = 0)
       \<and> (ins \<noteq> [] \<longrightarrow>
            (\<forall>i r'. latActive (in_CC i) \<and> cycle clamp (final s rs) i = Inr r' \<longrightarrow>
               steerOutputCan (new_actuators r')
                 = apply_driver_steer_torque_limits
                     (real_of_int (py_round (steer (actuators (in_CC i)) * STEER_MAX (ccp s))))
                     0 (steeringTorque (out (in_CS i))) (ccp s)))"
proof -
  have 1: "steerOutputCan (new_actuators r) = 0
             \<and> (\<exists>cmds f m. can_sends r = cmds @ [SteeringControl f 0 m])
             \<and> apply_steer_last (self_new r) = 0 \<and> ti_apply_steer_last (self_new r) = 0"
    if "r \<in> set rs" for r
  proof -
    from run_set[OF assms(1) that] obtain s' i where "i \<in> set ins" "cycle clamp s' i = Inr r"
      by (elim exE conjE)
    with assms(2) cycle_inactive[of clamp s' i r] show ?thesis by simp
  qed
  have 2: "steerOutputCan (new_actuators r')
                 = apply_driver_steer_torque_limits
                     (real_of_int (py_round (steer (actuators (in_CC i)) * STEER_MAX (ccp s))))
                     0 (steeringTorque (out (in_CS i))) (ccp s)"
    if ne: "ins \<noteq> []" and la: "latActive (in_CC i)" and c: "cycle clamp (final s rs) i = Inr r'" for i r'
  proof -
    from ne run_length[OF assms(1)] have "rs \<noteq> []" by auto
    then have "last rs \<in> set rs" and f: "final s rs = self_new (last rs)"
      by (simp_all add: final_def)
    with 1 have z: "apply_steer_last (final s rs) = 0" by simp
    from update_core[OF c[unfolded cycle_def]] la z run_ccp[OF assms(1)]
    show ?thesis
      by (simp add: steer_part_def Let_def split: if_splits)
  qed
  from 1 2 show ?thesis by blast
qed

theorem C8_lat_inactive_zero_witness:
  "\<not> isl (run example_clamp gen2_init [idle_in, idle_in])
   \<and> \<not> latActive (in_CC idle_in)
   \<and> map (\<lambda>r. apply_steer_last (self_new r)) (projr (run example_clamp gen2_init [idle_in, idle_in])) = [0, 0]"
proof -
  let ?run = "run example_clamp gen2_init [idle_in, idle_in]"
  have n: "\<not> isl ?run"
    by (simp add: model_defs example_defs Let_def)
  have a: "\<not> latActive (in_CC idle_in)"
    by (simp add: example_defs)
  then have h: "\<forall>i \<in> set [idle_in, idle_in]. \<not> latActive (in_CC i)" by simp
  have l: "length (projr ?run) = 2"
    using run_length[OF not_isl_Inr[OF n]] by simp
  from C8_lat_inactive_zero[OF not_isl_Inr[OF n] h]
  have "\<forall>r \<in> set (projr ?run). apply_steer_last (self_new r) = 0" by simp
  then have "map (\<lambda>r. apply_steer_last (self_new r)) (projr ?run) = map (\<lambda>r. 0) (projr ?run)"
    by (intro map_cong) simp_all
  also have "\<dots> = [0, 0]" using l by (simp add: map_replicate_const numeral_2_eq_2)
  finally show ?thesis using n a by (intro conjI)
qed

section \<open>Gen1: cancel-button frames\<close>

lemma filter_eq_upt: "r < m \<Longrightarrow> filter (\<lambda>i. i = r) [0..<m] = [r]"
proof (induction m)
  case 0
  then show ?case by simp
next
  case (Suc m)
  show ?case
  proof (cases "r = m")
    case True
    have "filter (\<lambda>i. i = m) [0..<m] = []" by (simp add: filter_empty_conv)
    with True show ?thesis by simp
  next
    case False
    with Suc show ?thesis by simp
  qed
qed

lemma filter_mod_chunk:
  assumes "r < 10"
  shows "filter (\<lambda>k. k mod 10 = r) [10 * n..<10 * n + 10] = [10 * n + r]"
proof -
  have "[10 * n..<10 * n + 10] = map (\<lambda>i. i + 10 * n) [0..<10]"
    by (simp add: map_add_upt add.commute)
  then have "filter (\<lambda>k. k mod 10 = r) [10 * n..<10 * n + 10]
      = map (\<lambda>i. i + 10 * n) (filter (\<lambda>i. (i + 10 * n) mod 10 = r) [0..<10])"
    by (simp add: filter_map comp_def)
  also have "filter (\<lambda>i. (i + 10 * n) mod 10 = r) [0..<10] = filter (\<lambda>i. i = r) [0..<10]"
    by (rule filter_cong) auto
  also have "\<dots> = [r]" using assms by (rule filter_eq_upt)
  finally show ?thesis by (simp add: add.commute)
qed

lemma filter_mod_upt:
  assumes "r < 10"
  shows "filter (\<lambda>k. k mod 10 = r) [0..<10 * n] = map (\<lambda>j. r + 10 * j) [0..<n]"
proof (induction n)
  case 0
  show ?case by simp
next
  case (Suc n)
  have e: "10 * Suc n = 10 * n + 10" by simp
  have "[0..<10 * n + 10] = [0..<10 * n] @ [10 * n..<10 * n + 10]"
    by (rule upt_add_eq_append) simp
  then show ?case
    unfolding e using Suc filter_mod_chunk[OF assms, of n] by (simp add: add.commute)
qed

lemma frame_mod_offset:
  "(f + int k) mod 10 = 0 \<longleftrightarrow> k mod 10 = nat ((- f) mod 10)"
proof -
  have "0 \<le> (- f) mod 10" by simp
  then have "k mod 10 = nat ((- f) mod 10) \<longleftrightarrow> int (k mod 10) = (- f) mod 10"
    by linarith
  also have "\<dots> \<longleftrightarrow> int k mod 10 = (- f) mod 10"
    by (simp add: zmod_int)
  also have "\<dots> \<longleftrightarrow> 10 dvd int k - (- f)"
    by (rule mod_eq_dvd_iff)
  also have "\<dots> \<longleftrightarrow> (f + int k) mod 10 = 0"
    by (simp add: mod_eq_0_iff_dvd add.commute)
  finally show ?thesis by simp
qed

lemma every_tenth:
  "filter (\<lambda>k. (f + int k) mod 10 = 0) [0..<100] = map (\<lambda>j. nat ((- f) mod 10) + 10 * j) [0..<10]"
proof -
  have "nat ((- f) mod 10) < 10" by simp
  from filter_mod_upt[OF this, of 10] show ?thesis
    by (simp add: frame_mod_offset)
qed

lemma tenth_apart:
  assumes "(f + int j) mod 10 = 0" and "(f + int k) mod 10 = 0" and "j < k"
  shows "10 \<le> k - j"
proof -
  have "10 dvd (f + int k) - (f + int j)"
    using assms(1,2) by (intro dvd_diff) (simp_all add: mod_eq_0_iff_dvd)
  then have "int 10 dvd int (k - j)"
    using assms(3) by (simp add: of_nat_diff)
  then have "10 dvd k - j"
    by (simp only: of_nat_dvd_iff)
  moreover have "0 < k - j" using assms(3) by simp
  ultimately show ?thesis by (rule dvd_imp_le)
qed

lemma cycle_cancel:
  assumes "GEN1 \<in> flags (CP s)" and "cycle clamp s i = Inr r"
  shows "cancel_sent r \<longleftrightarrow> cancel (cruiseControl (in_CC i)) \<and> frame s mod 10 = 0
            \<and> \<not> (brakePressed (out (in_CS i)) \<and> brake_counter s + 1 < 7)"
    and "brake_counter (self_new r) = (if cancel (cruiseControl (in_CC i)) then brake_counter s + 1 else 0)"
    and "length (filter is_cancel (can_sends r)) = (if cancel_sent r then 1 else 0)"
proof -
  let ?CC = "in_CC i" and ?CS = "in_CS i"
  let ?st = "steered s ?CC ?CS"
  let ?s = "?st\<lparr>brake_counter := fst (gen1_buttons ?st ?CC ?CS)\<rparr>"
  obtain s' radar where rd: "gen1_radar clamp ?s ?CC ?CS (in_P i) = Inr (s', CS_new r, radar)"
    and sn: "self_new r = tick_all (s'\<lparr>frame := frame s' + 1\<rparr>)"
    and cs: "can_sends r = snd (gen1_buttons ?st ?CC ?CS) @ gen1_alert ?st ?CC ?CS @ radar
                 @ [SteeringControl (frame s') (fst (steer_part s ?CC ?CS)) (cam_lkas (CS_new r))]"
    using gen1_radar_of_update[OF assms(1) assms(2)[unfolded cycle_def]] by (elim exE conjE)
  note inv = gen1_radar_inv[OF rd]
  have rad: "filter is_cancel radar = []"
    using inv by (cases "RADAR_INTERCEPTOR \<in> flags (CP ?s)") (auto split: if_splits)
  have al: "filter is_cancel (gen1_alert ?st ?CC ?CS) = []"
    by (simp add: gen1_alert_def Let_def)
  have f: "filter is_cancel (can_sends r) = filter is_cancel (snd (gen1_buttons ?st ?CC ?CS))"
    by (simp add: cs rad al)
  have b: "filter is_cancel (snd (gen1_buttons ?st ?CC ?CS))
            = (if cancel (cruiseControl ?CC) \<and> frame s mod 10 = 0
                  \<and> \<not> (brakePressed (out ?CS) \<and> brake_counter s + 1 < 7)
               then [ButtonCmd (crz_btns_counter ?CS) CANCEL] else [])"
    by (simp add: gen1_buttons_def Let_def steered_fields)
  have cse: "cancel_sent r \<longleftrightarrow> filter is_cancel (can_sends r) \<noteq> []"
    by (simp add: cancel_sent_def list_ex_iff filter_empty_conv)
  show "cancel_sent r \<longleftrightarrow> cancel (cruiseControl (in_CC i)) \<and> frame s mod 10 = 0
            \<and> \<not> (brakePressed (out (in_CS i)) \<and> brake_counter s + 1 < 7)"
    unfolding cse f b by simp
  show "length (filter is_cancel (can_sends r)) = (if cancel_sent r then 1 else 0)"
    unfolding cse f b by simp
  from inv have "brake_counter s' = fst (gen1_buttons ?st ?CC ?CS)"
    by (simp add: same_core_def)
  then show "brake_counter (self_new r) = (if cancel (cruiseControl (in_CC i)) then brake_counter s + 1 else 0)"
    by (simp add: sn tick_all_fields gen1_buttons_def Let_def steered_fields)
qed

lemma run_cancel_sent:
  assumes "GEN1 \<in> flags (CP s)" and "run clamp s ins = Inr rs" and "k < length rs"
  shows "cancel_sent (rs ! k) \<longleftrightarrow> cancel (cruiseControl (in_CC (ins ! k))) \<and> (frame s + int k) mod 10 = 0
            \<and> \<not> (brakePressed (out (in_CS (ins ! k))) \<and> brake_counter (self_new (rs ! k)) < 7)"
    and "length (filter is_cancel (can_sends (rs ! k))) = (if cancel_sent (rs ! k) then 1 else 0)"
proof -
  from run_nth[OF assms(2,3)] have c: "cycle clamp (states s rs ! k) (ins ! k) = Inr (rs ! k)"
    by simp
  from run_frame[OF assms(2), of k] assms(3) have f: "frame (states s rs ! k) = frame s + int k"
    and g: "GEN1 \<in> flags (CP (states s rs ! k))"
    using assms(1) by simp_all
  note cc = cycle_cancel[OF g c]
  show "cancel_sent (rs ! k) \<longleftrightarrow> cancel (cruiseControl (in_CC (ins ! k))) \<and> (frame s + int k) mod 10 = 0
            \<and> \<not> (brakePressed (out (in_CS (ins ! k))) \<and> brake_counter (self_new (rs ! k)) < 7)"
    using cc(1,2) f by auto
  show "length (filter is_cancel (can_sends (rs ! k))) = (if cancel_sent (rs ! k) then 1 else 0)"
    by (rule cc(3))
qed

text \<open>
  C6. Along a run of Gen1 cycles, two cycles that emit a cancel-button frame are at least 10
  cycles apart and a cycle emits at most one such frame; and no cancel-button frame is emitted
  in a cycle in which the brake is pressed and the debounce count is below 7. The debounce
  count is the value that the check of the cycle reads: \<^verbatim>\<open>brake_counter\<close> after the
  increment of the cycle, which is the value stored when the cycle ends.
\<close>

theorem C6_cancel_frames:
  assumes "GEN1 \<in> flags (CP s)" and "run clamp s ins = Inr rs"
  shows "(\<forall>j k. j < k \<and> k < length rs \<and> cancel_sent (rs ! j) \<and> cancel_sent (rs ! k) \<longrightarrow> 10 \<le> k - j)
       \<and> (\<forall>k < length rs. length (filter is_cancel (can_sends (rs ! k))) \<le> 1)
       \<and> (\<forall>k < length rs. brakePressed (out (in_CS (ins ! k))) \<and> brake_counter (self_new (rs ! k)) < 7
             \<longrightarrow> \<not> cancel_sent (rs ! k))"
proof -
  have 1: "10 \<le> k - j"
    if "j < k" "k < length rs" "cancel_sent (rs ! j)" "cancel_sent (rs ! k)" for j k
  proof -
    from that have j: "j < length rs" by simp
    from run_cancel_sent(1)[OF assms j] that(3) have "(frame s + int j) mod 10 = 0" by simp
    moreover from run_cancel_sent(1)[OF assms that(2)] that(4) have "(frame s + int k) mod 10 = 0" by simp
    ultimately show ?thesis using that(1) by (rule tenth_apart)
  qed
  have 2: "length (filter is_cancel (can_sends (rs ! k))) \<le> 1" if "k < length rs" for k
    using run_cancel_sent(2)[OF assms that] by simp
  have 3: "\<not> cancel_sent (rs ! k)"
    if "k < length rs" "brakePressed (out (in_CS (ins ! k))) \<and> brake_counter (self_new (rs ! k)) < 7" for k
    using run_cancel_sent(1)[OF assms that(1)] that(2) by simp
  from 1 2 3 show ?thesis by blast
qed

theorem C6_cancel_frames_witness:
  "GEN1 \<in> flags (CP gen1_init)
   \<and> \<not> isl (run example_clamp gen1_init [brake_cancel_in, cancel_in])
   \<and> brakePressed (out (in_CS ([brake_cancel_in, cancel_in] ! 0)))
   \<and> brake_counter (self_new (projr (run example_clamp gen1_init [brake_cancel_in, cancel_in]) ! 0)) = 1
   \<and> \<not> cancel_sent (projr (run example_clamp gen1_init [brake_cancel_in, cancel_in]) ! 0)"
proof -
  let ?run = "run example_clamp gen1_init [brake_cancel_in, cancel_in]"
  have g: "GEN1 \<in> flags (CP gen1_init)"
    by (simp add: example_defs init_def)
  have n: "\<not> isl ?run"
    by (simp add: model_defs example_defs Let_def)
  have b: "brakePressed (out (in_CS ([brake_cancel_in, cancel_in] ! 0)))"
    by (simp add: example_defs)
  have c: "brake_counter (self_new (projr ?run ! 0)) = 1"
    by (simp add: model_defs example_defs Let_def)
  have l: "0 < length (projr ?run)"
    using run_length[OF not_isl_Inr[OF n]] by simp
  from C6_cancel_frames[OF g not_isl_Inr[OF n]] l b c
  have "\<not> cancel_sent (projr ?run ! 0)" by simp
  with g n b c show ?thesis by (intro conjI)
qed

lemma cancel_offsets_run:
  assumes "GEN1 \<in> flags (CP s)" and "run clamp s ins = Inr rs" and "length ins = 100"
    and "\<forall>i \<in> set ins. cancel (cruiseControl (in_CC i)) \<and> \<not> brakePressed (out (in_CS i))"
  shows "cancel_offsets rs = map (\<lambda>j. nat ((- frame s) mod 10) + 10 * j) [0..<10]"
proof -
  have l: "length rs = 100" using run_length[OF assms(2)] assms(3) by simp
  have "cancel_offsets rs = filter (\<lambda>k. cancel_sent (rs ! k)) [0..<100]"
    by (simp add: cancel_offsets_def l)
  also have "\<dots> = filter (\<lambda>k. (frame s + int k) mod 10 = 0) [0..<100]"
  proof (rule filter_cong[OF refl])
    fix k assume "k \<in> set [0..<100]"
    then have k: "k < length rs" and "ins ! k \<in> set ins" using l assms(3) by simp_all
    with assms(4) have "cancel (cruiseControl (in_CC (ins ! k)))" "\<not> brakePressed (out (in_CS (ins ! k)))"
      by simp_all
    with run_cancel_sent(1)[OF assms(1,2) k]
    show "cancel_sent (rs ! k) = ((frame s + int k) mod 10 = 0)" by simp
  qed
  also have "\<dots> = map (\<lambda>j. nat ((- frame s) mod 10) + 10 * j) [0..<10]"
    by (rule every_tenth)
  finally show ?thesis .
qed

lemma offsets_aligned:
  "f mod 10 = 0 \<Longrightarrow> map (\<lambda>j. nat ((- f) mod 10) + 10 * j) [0..<10] = [0, 10, 20, 30, 40, 50, 60, 70, 80, 90]"
  for f :: int
proof -
  assume "f mod 10 = 0"
  then have "(- f) mod 10 = 0" by (simp add: mod_eq_0_iff_dvd)
  then show ?thesis by (simp add: upt_rec)
qed

text \<open>
  C7, amended. From a Gen1 controller with a nonzero steering maximum, 100 consecutive
  cycles on well-formed car states with cancel intent and the brake released all return, and
  exactly 10 of them emit a cancel-button frame, one frame each: the cycles whose zero-indexed
  offset \<open>k\<close> in the window makes \<open>frame + k\<close> a multiple of 10, that is the offsets
  \<open>r, r + 10, \<dots>, r + 90\<close> for \<open>r = (- frame) mod 10\<close>. They are the offsets
  \<open>0, 10, \<dots>, 90\<close> when the frame count at the start of the window is a multiple of
  10, and not otherwise: a window that starts at frame count 3 emits at the offsets
  \<open>7, 17, \<dots>, 97\<close>.
\<close>

theorem C7_cancel_window:
  assumes "GEN1 \<in> flags (CP s)" and "STEER_MAX (ccp s) \<noteq> 0"
    and "\<forall>i \<in> set ins. wf_CS (in_CS i)" and "length ins = 100"
    and "\<forall>i \<in> set ins. cancel (cruiseControl (in_CC i)) \<and> \<not> brakePressed (out (in_CS i))"
  shows "\<exists>rs. run clamp s ins = Inr rs
           \<and> cancel_offsets rs = map (\<lambda>j. nat ((- frame s) mod 10) + 10 * j) [0..<10]
           \<and> length (cancel_offsets rs) = 10
           \<and> (\<forall>k < length rs. length (filter is_cancel (can_sends (rs ! k)))
                                  = (if cancel_sent (rs ! k) then 1 else 0))
           \<and> (frame s mod 10 = 0 \<longrightarrow> cancel_offsets rs = [0, 10, 20, 30, 40, 50, 60, 70, 80, 90])"
proof -
  obtain rs where rs: "run clamp s ins = Inr rs"
    using run_returns[where clamp = clamp, OF assms(2,3)] by (elim exE)
  note o = cancel_offsets_run[OF assms(1) rs assms(4,5)]
  have 1: "length (cancel_offsets rs) = 10" by (simp add: o)
  have 2: "\<forall>k < length rs. length (filter is_cancel (can_sends (rs ! k)))
                                  = (if cancel_sent (rs ! k) then 1 else 0)"
    using run_cancel_sent(2)[OF assms(1) rs] by blast
  have 3: "frame s mod 10 = 0 \<longrightarrow> cancel_offsets rs = [0, 10, 20, 30, 40, 50, 60, 70, 80, 90]"
    using o offsets_aligned[of "frame s"] by simp
  show ?thesis
    by (rule exI[of _ rs]) (intro conjI rs o 1 2 3)
qed

lemma wf_examples: "wf_CS (in_CS idle_in)" "wf_CS (in_CS cancel_in)"
  by (simp_all add: wf_CS_def example_defs)

lemma cancel_in_props: "cancel (cruiseControl (in_CC cancel_in))" "\<not> brakePressed (out (in_CS cancel_in))"
  by (simp_all add: example_defs)

theorem C7_cancel_window_witness:
  "GEN1 \<in> flags (CP gen1_init) \<and> STEER_MAX (ccp gen1_init) \<noteq> 0 \<and> wf_CS (in_CS cancel_in)
   \<and> length (replicate 100 cancel_in) = 100
   \<and> cancel (cruiseControl (in_CC cancel_in)) \<and> \<not> brakePressed (out (in_CS cancel_in))
   \<and> \<not> isl (run example_clamp gen1_init (replicate 100 cancel_in))
   \<and> cancel_offsets (projr (run example_clamp gen1_init (replicate 100 cancel_in)))
       = [0, 10, 20, 30, 40, 50, 60, 70, 80, 90]"
proof -
  have g: "GEN1 \<in> flags (CP gen1_init)" and m: "STEER_MAX (ccp gen1_init) \<noteq> 0"
    and f: "frame gen1_init mod 10 = 0"
    by (simp_all add: example_defs init_def)
  have w: "\<forall>i \<in> set (replicate 100 cancel_in). wf_CS (in_CS i)"
    using wf_examples by simp
  have l: "length (replicate 100 cancel_in) = 100" by simp
  have c: "\<forall>i \<in> set (replicate 100 cancel_in). cancel (cruiseControl (in_CC i)) \<and> \<not> brakePressed (out (in_CS i))"
    using cancel_in_props by simp
  from C7_cancel_window[OF g m w l c, of example_clamp] f
  obtain rs where "run example_clamp gen1_init (replicate 100 cancel_in) = Inr rs"
    and "cancel_offsets rs = [0, 10, 20, 30, 40, 50, 60, 70, 80, 90]"
    by blast
  then have "\<not> isl (run example_clamp gen1_init (replicate 100 cancel_in))"
    and "cancel_offsets (projr (run example_clamp gen1_init (replicate 100 cancel_in)))
       = [0, 10, 20, 30, 40, 50, 60, 70, 80, 90]"
    by simp_all
  with g m wf_examples(2) l cancel_in_props show ?thesis by (intro conjI)
qed

theorem C7_cancel_window_counterexample:
  "\<not> isl (run example_clamp gen1_init late_cancel)
   \<and> frame (final gen1_init (take 3 (projr (run example_clamp gen1_init late_cancel)))) = 3
   \<and> cancel (cruiseControl (in_CC cancel_in)) \<and> \<not> brakePressed (out (in_CS cancel_in))
   \<and> cancel_offsets (drop 3 (projr (run example_clamp gen1_init late_cancel)))
       = [7, 17, 27, 37, 47, 57, 67, 77, 87, 97]"
proof -
  have g: "GEN1 \<in> flags (CP gen1_init)" and m: "STEER_MAX (ccp gen1_init) \<noteq> 0"
    and f: "frame gen1_init = 0"
    by (simp_all add: example_defs init_def)
  have w: "\<forall>i \<in> set late_cancel. wf_CS (in_CS i)"
    using wf_examples by (auto simp: late_cancel_def)
  obtain rs where rs: "run example_clamp gen1_init late_cancel = Inr rs"
    using run_returns[where clamp = example_clamp, OF m w] by (elim exE)
  obtain ra rb where ra: "run example_clamp gen1_init (replicate 3 idle_in) = Inr ra"
    and rb: "run example_clamp (final gen1_init ra) (replicate 100 cancel_in) = Inr rb"
    and e: "rs = ra @ rb"
    using run_append_inv[OF rs[unfolded late_cancel_def]] by (elim exE conjE)
  have la: "length ra = 3" using run_length[OF ra] by simp
  have sl: "states gen1_init ra ! 3 = final gen1_init ra"
    using states_last[of gen1_init ra] by (simp add: la)
  from run_frame[OF ra, of 3] have fr: "frame (final gen1_init ra) = 3"
    and cp: "CP (final gen1_init ra) = CP gen1_init"
    by (simp_all add: sl la f)
  have g': "GEN1 \<in> flags (CP (final gen1_init ra))" using g cp by simp
  have c: "\<forall>i \<in> set (replicate 100 cancel_in). cancel (cruiseControl (in_CC i)) \<and> \<not> brakePressed (out (in_CS i))"
    using cancel_in_props by simp
  have "cancel_offsets rb = map (\<lambda>j. nat ((- frame (final gen1_init ra)) mod 10) + 10 * j) [0..<10]"
    by (rule cancel_offsets_run[OF g' rb _ c]) simp
  then have o: "cancel_offsets rb = [7, 17, 27, 37, 47, 57, 67, 77, 87, 97]"
    by (simp add: fr upt_rec)
  show ?thesis
    using o fr cancel_in_props by (simp add: rs e la)
qed

end
